theory Spec2Isabelle
  imports Main
begin

section \<open>JavaScript values\<close>

text \<open>
  Filters, order clauses and operator objects are plain JavaScript values. An object is
  an association list in insertion order (the order \<open>Object.keys\<close> yields); a key
  is looked up with \<open>map_of\<close>. Numbers are integers here (no fractions, no NaN).
  \<open>JRegExp source ignoreCase\<close> is a \<open>RegExp\<close> instance.
\<close>

datatype json =
    JUndefined
  | JNull
  | JBool bool
  | JNum int
  | JStr string
  | JRegExp string bool
  | JArr "json list"
  | JObj "(string \<times> json) list"

text \<open>The errors that the modelled code raises.\<close>

datatype error =
    TypeError
  | UnknownOperatorError string json
  | UnknownPropertyError string

text \<open>JavaScript truthiness: \<open>!value\<close> is \<open>\<not> truthy value\<close>.\<close>

fun truthy :: "json \<Rightarrow> bool" where
  "truthy JUndefined = False"
| "truthy JNull = False"
| "truthy (JBool b) = b"
| "truthy (JNum n) = (n \<noteq> 0)"
| "truthy (JStr s) = (s \<noteq> [])"
| "truthy (JRegExp s i) = True"
| "truthy (JArr xs) = True"
| "truthy (JObj kvs) = True"

text \<open>
  \<open>Object.prototype.hasOwnProperty.call(value, op)\<close> for an operator name \<open>op\<close>:
  only an object can own such a key (a string or an array owns its indices and
  \<open>length\<close>, a RegExp \<open>lastIndex\<close>, a number or boolean nothing).
\<close>

fun hasOwn :: "json \<Rightarrow> string \<Rightarrow> bool" where
  "hasOwn (JObj kvs) k = (map_of kvs k \<noteq> None)"
| "hasOwn _ k = False"

text \<open>
  Property access \<open>value[key]\<close> for the keys the builder reads (\<open>and\<close>, \<open>or\<close>,
  operator names, \<open>source\<close>, \<open>ignoreCase\<close>): it throws on \<open>null\<close> and
  \<open>undefined\<close> and yields \<open>undefined\<close> for a key that is absent.
\<close>

fun getProp :: "json \<Rightarrow> string \<Rightarrow> error + json" where
  "getProp JUndefined k = Inl TypeError"
| "getProp JNull k = Inl TypeError"
| "getProp (JObj kvs) k = Inr (case map_of kvs k of None \<Rightarrow> JUndefined | Some v \<Rightarrow> v)"
| "getProp (JRegExp s i) k =
     Inr (if k = ''source'' then JStr s else if k = ''ignoreCase'' then JBool i else JUndefined)"
| "getProp _ k = Inr JUndefined"

text \<open>
  A plain object (\<open>{}\<close>, an object literal) inherits the members of
  \<open>Object.prototype\<close>: reading one of these names from it yields a function (the
  prototype itself for \<open>__proto__\<close>), a truthy value, although the object has no
  such key of its own.
\<close>

definition objectPrototype :: "string list" where
  "objectPrototype =
     [''constructor'', ''hasOwnProperty'', ''isPrototypeOf'', ''propertyIsEnumerable'',
      ''toLocaleString'', ''toString'', ''valueOf'', ''__proto__'', ''__defineGetter__'',
      ''__defineSetter__'', ''__lookupGetter__'', ''__lookupSetter__'']"

section \<open>Schema: models and relations\<close>

text \<open>
  A relation definition as the builder reads it. \<open>modelTo\<close> and \<open>modelThrough\<close> are
  references to model classes in the source; the relation graph may be cyclic, so the
  model holds their names and a registry (a total function on names) resolves them.
\<close>

record Relation =
  relName :: string
  keyFrom :: string
  keyTo :: string
  modelTo :: string
  modelThrough :: "string option"
  keyThrough :: string

text \<open>
  A model: its name, the connector of its data source, its table, its properties (each
  with the column names configured per connector), its id properties and relations.
\<close>

record Model =
  modelName :: string
  connector :: string
  tableName :: string
  properties :: "(string \<times> (string \<times> string) list) list"
  ids :: "string list"
  relations :: "Relation list"

type_synonym Registry = "string \<Rightarrow> Model"

section \<open>The model wrapper\<close>

text \<open>A wrapper binds a model to a table alias (the field \<open>alias\<close> of the source).\<close>

record ModelWrapper =
  model :: Model
  aliasName :: string

definition fromModel :: "Model \<Rightarrow> string \<Rightarrow> ModelWrapper" where
  "fromModel m a = \<lparr>model = m, aliasName = a\<rparr>"

text \<open>
  Modelled from the spec: \<open>ModelWrapper.isProperty\<close>, \<open>isRelation\<close> and
  \<open>getRelation\<close> (the file ModelWrapper.js is not among the sources): schema
  membership queries.
\<close>

definition isProperty :: "ModelWrapper \<Rightarrow> string \<Rightarrow> bool" where
  "isProperty w n = (map_of (properties (model w)) n \<noteq> None)"

definition getRelation :: "ModelWrapper \<Rightarrow> string \<Rightarrow> Relation option" where
  "getRelation w n = find (\<lambda>r. relName r = n) (relations (model w))"

definition isRelation :: "ModelWrapper \<Rightarrow> string \<Rightarrow> bool" where
  "isRelation w n = (getRelation w n \<noteq> None)"

text \<open>
  Modelled from the spec: the passthrough accessors \<open>getName\<close>,
  \<open>getConnectorName\<close> and \<open>getAliasedTable\<close> of ModelWrapper.js (not among the
  sources). The aliased table is written \<open>table as alias\<close>.
\<close>

definition getName :: "ModelWrapper \<Rightarrow> string" where
  "getName w = modelName (model w)"

definition getConnectorName :: "ModelWrapper \<Rightarrow> string" where
  "getConnectorName w = connector (model w)"

definition getAliasedTable :: "ModelWrapper \<Rightarrow> string" where
  "getAliasedTable w = tableName (model w) @ '' as '' @ aliasName w"

definition lowerChar :: "char \<Rightarrow> char" where
  "lowerChar c =
     (let n = (of_char c :: nat) in if 65 \<le> n \<and> n \<le> 90 then char_of (n + 32) else c)"

definition toLowerCase :: "string \<Rightarrow> string" where
  "toLowerCase s = map lowerChar s"

text \<open>
  Modelled from the spec: \<open>ModelWrapper.getColumnName(property, {preserveCase})\<close>
  (ModelWrapper.js is not among the sources; its tests are): \<open>alias.column\<close>, where
  the column is the name configured on the property for the model's connector if there
  is one, else the property name, in lower case when \<open>preserveCase\<close> is false. The
  builder never passes the \<open>alias\<close> option, so the wrapper's own alias is used.
\<close>

definition columnOf :: "ModelWrapper \<Rightarrow> string \<Rightarrow> string" where
  "columnOf w p =
     (case map_of (properties (model w)) p of
        None \<Rightarrow> p
      | Some cfg \<Rightarrow> (case map_of cfg (connector (model w)) of None \<Rightarrow> p | Some c \<Rightarrow> c))"

definition getColumnName :: "ModelWrapper \<Rightarrow> string \<Rightarrow> bool \<Rightarrow> string" where
  "getColumnName w p preserveCase =
     aliasName w @ ''.'' @ (if preserveCase then columnOf w p else toLowerCase (columnOf w p))"

text \<open>
  Modelled from the spec: \<open>ModelWrapper.getIdProperties({ignoreAlias, preserveCase})\<close>
  (not among the sources): the id properties of the entity, qualified by the alias
  unless \<open>ignoreAlias\<close> is set.
\<close>

definition getIdProperties :: "ModelWrapper \<Rightarrow> bool \<Rightarrow> bool \<Rightarrow> string list" where
  "getIdProperties w ignoreAlias preserveCase =
     map (\<lambda>p. if ignoreAlias then p else getColumnName w p preserveCase) (ids (model w))"

text \<open>
  Modelled from the spec: \<open>ModelWrapper.getPropertyQueriedThrough(relation)\<close> (not
  among the sources): the reverse lookup. Among the target entity's own relations it
  finds the one that goes through the same pivot model and yields the property that
  relation is keyed on; \<open>None\<close> stands for \<open>null\<close>, no reverse relation declared.
\<close>

definition getPropertyQueriedThrough :: "ModelWrapper \<Rightarrow> Relation \<Rightarrow> string option" where
  "getPropertyQueriedThrough w rel =
     (case modelThrough rel of
        None \<Rightarrow> None
      | Some t \<Rightarrow>
          map_option keyFrom
            (find (\<lambda>r. modelThrough r = Some t) (relations (model w))))"

section \<open>The query builder: operator application\<close>

text \<open>
  The knex query builder is an external collaborator. It is modelled by the sequence of
  calls the code makes on it, in order; a method that adds a clause appends one call.
  What knex does with a call is outside the sources (it refuses, for one, a
  \<open>whereBetween\<close> whose operand is no array of two values).
\<close>

datatype Call =
    Where string json
  | WhereRaw string string json
  | WhereBetween string json
  | WhereIn string json
  | WhereNotIn string json
  | Min string string
  | Max string string
  | OrderBy string json

type_synonym Builder = "Call list"

definition operatorMaps :: "(string \<times> (string \<times> string) list) list" where
  "operatorMaps =
     [(''postgresql'',
        [(''neq'', ''!=''), (''gt'', ''>''), (''lt'', ''<''), (''gte'', ''>=''),
         (''lte'', ''<=''), (''like'', ''like''), (''ilike'', ''ilike''),
         (''nlike'', ''not like''), (''nilike'', ''not ilike''), (''regexp'', ''~''),
         (''iregexp'', ''~*'')]),
      (''mysql'',
        [(''neq'', ''!=''), (''gt'', ''>''), (''lt'', ''<''), (''gte'', ''>=''),
         (''lte'', ''<=''), (''like'', ''like binary''), (''ilike'', ''like''),
         (''nlike'', ''not like binary''), (''nilike'', ''not like''),
         (''regexp'', ''regexp binary''), (''iregexp'', ''regexp'')])]"

definition supportedOperators :: "string list" where
  "supportedOperators =
     [''='', ''neq'', ''lt'', ''lte'', ''gt'', ''gte'', ''like'', ''nlike'', ''ilike'',
      ''nilike'', ''inq'', ''nin'', ''between'', ''regexp'']"

text \<open>
  \<open>operatorMaps[connectorName]\<close>: the map of the connector, \<open>undefined\<close>
  (\<open>None\<close>) for any other name, except that a name inherited from
  \<open>Object.prototype\<close> yields that member, on which every operator reads as
  \<open>undefined\<close>, like a map without entries.
\<close>

definition getOperatorMap :: "ModelWrapper \<Rightarrow> (string \<times> string) list option" where
  "getOperatorMap wrappedModel =
     (let connectorName = getConnectorName wrappedModel
      in case map_of operatorMaps connectorName of
           Some operatorMap \<Rightarrow> Some operatorMap
         | None \<Rightarrow> if connectorName \<in> set objectPrototype then Some [] else None)"

text \<open>
  \<open>operatorMap[key]\<close> inside the template literal: reading a key of an undefined map
  throws, a key the map lacks is rendered as \<open>undefined\<close>.
\<close>

definition mapped :: "(string \<times> string) list option \<Rightarrow> string \<Rightarrow> error + string" where
  "mapped operatorMap key =
     (case operatorMap of
        None \<Rightarrow> Inl TypeError
      | Some om \<Rightarrow> Inr (case map_of om key of None \<Rightarrow> ''undefined'' | Some t \<Rightarrow> t))"

definition rawTemplate :: "string \<Rightarrow> string" where
  "rawTemplate mappedOperator = '':property: '' @ mappedOperator @ '' :value''"

text \<open>
  \<open>applyPropertyFilter({property, value}, builder, rootModel)\<close>. The switch is written
  as the chain of its cases, in the source's order; its \<open>default\<close> is the last branch.
  The message of the error is built from the property and the value, which the error
  carries here.
\<close>

definition applyPropertyFilter ::
  "string \<Rightarrow> json \<Rightarrow> Builder \<Rightarrow> ModelWrapper \<Rightarrow> error + Builder" where
  "applyPropertyFilter property value builder rootModel =
     (if \<not> truthy value then Inr builder
      else
        let operatorMap = getOperatorMap rootModel in
        (case find (\<lambda>op. hasOwn value op) supportedOperators of
           None \<Rightarrow> Inr builder
         | Some operator \<Rightarrow>
             (case getProp value operator of
                Inl e \<Rightarrow> Inl e
              | Inr content \<Rightarrow>
                  if operator = ''='' then Inr (builder @ [Where property content])
                  else if operator \<in> set [''neq'', ''gt'', ''lt'', ''gte'', ''lte'', ''like'',
                                          ''ilike'', ''nlike'', ''nilike''] then
                    (case mapped operatorMap operator of
                       Inl e \<Rightarrow> Inl e
                     | Inr mappedOperator \<Rightarrow>
                         Inr (builder @ [WhereRaw (rawTemplate mappedOperator) property content]))
                  else if operator = ''between'' then Inr (builder @ [WhereBetween property content])
                  else if operator = ''inq'' then Inr (builder @ [WhereIn property content])
                  else if operator = ''nin'' then Inr (builder @ [WhereNotIn property content])
                  else if operator = ''regexp'' then
                    (case getProp content ''ignoreCase'' of
                       Inl e \<Rightarrow> Inl e
                     | Inr ic \<Rightarrow>
                         (case mapped operatorMap ((if truthy ic then ''i'' else '''') @ operator) of
                            Inl e \<Rightarrow> Inl e
                          | Inr mappedOperator \<Rightarrow>
                              (case getProp content ''source'' of
                                 Inl e \<Rightarrow> Inl e
                               | Inr src \<Rightarrow>
                                   Inr (builder @ [WhereRaw (rawTemplate mappedOperator) property src]))))
                  else Inl (UnknownOperatorError property value))))"

section \<open>The alias provider\<close>

text \<open>Decimal digits of a counter value.\<close>

definition digits :: string where
  "digits = ''0123456789''"

definition digit :: "nat \<Rightarrow> char" where
  "digit d = digits ! min d 9"

function showNat :: "nat \<Rightarrow> string" where
  "showNat n = (if n < 10 then [digit n] else showNat (n div 10) @ [digit (n mod 10)])"
  by pat_completeness auto
termination
  by (relation "measure id") auto

declare showNat.simps [simp del]

text \<open>
  Modelled from the spec: \<open>TableAliasProvider.createAlias(model, relation, {through})\<close>
  and \<open>spawnProvider()\<close> (TableAliasProvider.js is not among the sources). A provider
  and every provider spawned from it draw from one shared counter; an alias names the
  model, the relation and the through model it was made for, followed by the counter
  value. The provider value that the builder threads is that shared counter.
\<close>

type_synonym TableAliasProvider = nat

definition aliasSegments :: "string \<Rightarrow> string option \<Rightarrow> string option \<Rightarrow> string" where
  "aliasSegments modelN relation through =
     modelN @ (case relation of None \<Rightarrow> [] | Some r \<Rightarrow> ''_'' @ r)
            @ (case through of None \<Rightarrow> [] | Some t \<Rightarrow> ''_'' @ t)"

definition providerCreateAlias ::
  "TableAliasProvider \<Rightarrow> string \<Rightarrow> string option \<Rightarrow> string option \<Rightarrow> string \<times> TableAliasProvider" where
  "providerCreateAlias n modelN relation through =
     (aliasSegments modelN relation through @ ''_'' @ showNat n, Suc n)"

text \<open>
  Modelled from the spec: the calls that one \<open>buildQuery\<close> makes on a provider and
  on the providers spawned from it (TableAliasProvider.js is not among the sources).
  Providers are numbered in the order of their creation, the root provider first; a call
  names the provider it is made on. \<open>spawnProvider\<close> adds a provider that draws
  from the same counter; \<open>runCalls c k calls\<close> is the list of the aliases that the
  calls return, from the counter value \<open>c\<close> and \<open>k\<close> providers on. (A call on
  a provider that does not exist is not a call and is skipped.)
\<close>

datatype ProviderCall =
    CreateAlias nat string "string option" "string option"
  | SpawnProvider nat

fun runCalls :: "TableAliasProvider \<Rightarrow> nat \<Rightarrow> ProviderCall list \<Rightarrow> string list" where
  "runCalls c k [] = []"
| "runCalls c k (CreateAlias h modelN relation through # rest) =
     (if h < k then
        fst (providerCreateAlias c modelN relation through)
          # runCalls (snd (providerCreateAlias c modelN relation through)) k rest
      else runCalls c k rest)"
| "runCalls c k (SpawnProvider h # rest) = runCalls c (if h < k then Suc k else k) rest"

section \<open>The query builder: aliases and joins\<close>

text \<open>The part of the builder's own state that the modelled methods read.\<close>

record SearchQueryBuilder =
  models :: Registry
  preserveColumnCase :: bool

text \<open>\<open>createAlias(aliasProvider, model, relation = null, forThrough = false)\<close>.\<close>

definition createAlias ::
  "SearchQueryBuilder \<Rightarrow> TableAliasProvider \<Rightarrow> string \<Rightarrow> Relation option \<Rightarrow> bool
     \<Rightarrow> string \<times> TableAliasProvider" where
  "createAlias self aliasProvider modelN relation forThrough =
     (let relationName = map_option relName relation;
          through =
            (case relation of
               None \<Rightarrow> None
             | Some r \<Rightarrow>
                 if forThrough
                 then map_option (\<lambda>t. modelName (models self t)) (modelThrough r)
                 else None)
      in providerCreateAlias aliasProvider modelN relationName through)"

text \<open>The result of \<open>_trackAliases\<close>, and a join as \<open>getAllJoins\<close> returns it.\<close>

record Aliases =
  a_keyFrom :: string
  a_modelTo :: ModelWrapper
  a_relation :: Relation
  a_table :: string
  a_modelThrough :: "ModelWrapper option"

record Join =
  table :: string
  j_keyFrom :: string
  j_keyTo :: string

text \<open>
  The object \<open>relations\<close> of one level, as the code reads it: \<open>relations[name]\<close>
  is \<open>undefined\<close> (\<open>None\<close>), the aliases that \<open>_trackAliases\<close> stored, or,
  for a name of \<open>Object.prototype\<close>, the inherited member. Every level starts from
  \<open>{}\<close>, which is \<open>emptyObject\<close>.
\<close>

datatype Seen = Inherited | Tracked Aliases

type_synonym SeenRelations = "string \<Rightarrow> Seen option"

definition emptyObject :: SeenRelations where
  "emptyObject name = (if name \<in> set objectPrototype then Some Inherited else None)"

text \<open>
  \<open>_trackAliases(rootModel, relationName, aliasProvider, seenRelations, options)\<close>. The
  provider and the map of seen relations are mutated in the source and returned here.
  A relation that the model does not have makes \<open>relation.modelThrough\<close> throw.
  Whatever \<open>seenRelations[relationName]\<close> holds is returned if it is truthy, an
  inherited member too.
\<close>

definition trackAliases ::
  "SearchQueryBuilder \<Rightarrow> ModelWrapper \<Rightarrow> string \<Rightarrow> TableAliasProvider \<Rightarrow> SeenRelations \<Rightarrow> bool
     \<Rightarrow> error + (Seen \<times> TableAliasProvider \<times> SeenRelations)" where
  "trackAliases self rootModel relationName aliasProvider seenRelations preserveCase =
     (case seenRelations relationName of
        Some previousResult \<Rightarrow> Inr (previousResult, aliasProvider, seenRelations)
      | None \<Rightarrow>
          (case getRelation rootModel relationName of
             None \<Rightarrow> Inl TypeError
           | Some relation \<Rightarrow>
               let throughModel = modelThrough relation;
                   (modelToAlias, p1) =
                      createAlias self aliasProvider (getName rootModel) (Some relation) False;
                   modelTo' = fromModel (models self (modelTo relation)) modelToAlias;
                   aliases = \<lparr>a_keyFrom = getColumnName rootModel (keyFrom relation) preserveCase,
                              a_modelTo = modelTo',
                              a_relation = relation,
                              a_table = getAliasedTable modelTo',
                              a_modelThrough = None\<rparr>
               in (case throughModel of
                     None \<Rightarrow>
                       Inr (Tracked aliases, p1, seenRelations(relationName \<mapsto> Tracked aliases))
                   | Some t \<Rightarrow>
                       let (throughAlias, p2) =
                              createAlias self p1 (getName rootModel) (Some relation) True;
                           aliases' =
                              aliases\<lparr>a_modelThrough := Some (fromModel (models self t) throughAlias)\<rparr>
                       in Inr (Tracked aliases', p2,
                               seenRelations(relationName \<mapsto> Tracked aliases')))))"

text \<open>
  \<open>_joinMapping({keyFrom, modelTo, modelThrough, relation, table}, opts)\<close>. The first
  id property is \<open>undefined\<close> for a model without one; \<open>a || b\<close> takes \<open>b\<close> when
  \<open>a\<close> is null or the empty string.
\<close>

definition joinMapping ::
  "SearchQueryBuilder \<Rightarrow> string \<Rightarrow> ModelWrapper \<Rightarrow> ModelWrapper \<Rightarrow> Relation \<Rightarrow> string \<Rightarrow> bool
     \<Rightarrow> Join list" where
  "joinMapping self keyFrom' modelTo' modelThrough' relation table' preserveCase =
     (let targetModelId =
            (case getIdProperties modelTo' True (preserveColumnCase self) of
               [] \<Rightarrow> ''undefined''
             | x # _ \<Rightarrow> x);
          relationTargetProperty = getPropertyQueriedThrough modelTo' relation;
          targetKey =
            (case relationTargetProperty of
               None \<Rightarrow> targetModelId
             | Some p \<Rightarrow> if p \<noteq> [] then p else targetModelId)
      in [\<lparr>table = getAliasedTable modelThrough',
            j_keyFrom = keyFrom',
            j_keyTo = getColumnName modelThrough' (keyTo relation) preserveCase\<rparr>,
          \<lparr>table = table',
            j_keyFrom = getColumnName modelThrough' (keyThrough relation) preserveCase,
            j_keyTo = getColumnName modelTo' targetKey preserveCase\<rparr>])"

text \<open>\<open>_joinReference({keyFrom, modelTo, relation, table}, opts)\<close>.\<close>

definition joinReference ::
  "string \<Rightarrow> ModelWrapper \<Rightarrow> Relation \<Rightarrow> string \<Rightarrow> bool \<Rightarrow> Join" where
  "joinReference keyFrom' modelTo' relation table' preserveCase =
     \<lparr>table = table',
      j_keyFrom = keyFrom',
      j_keyTo = getColumnName modelTo' (keyTo relation) preserveCase\<rparr>"

text \<open>
  \<open>Object.keys(query)\<close> with the values \<open>query[key]\<close>, as \<open>_forEachQuery\<close> walks
  them: it throws on \<open>null\<close> and \<open>undefined\<close>, yields the entries of an object
  and nothing for a number, a boolean or a RegExp. A string or an array has its indices
  as keys; they name no relation or property and are left out.
\<close>

fun objectEntries :: "json \<Rightarrow> error + (string \<times> json) list" where
  "objectEntries JUndefined = Inl TypeError"
| "objectEntries JNull = Inl TypeError"
| "objectEntries (JObj kvs) = Inr kvs"
| "objectEntries _ = Inr []"

text \<open>
  \<open>_forEachQuery(collection, callback)\<close>: the callback runs on every key of every
  element, in order. The state that the callback mutates is threaded through; an
  exception ends the walk.
\<close>

fun forEachKey ::
  "(string \<times> json \<Rightarrow> 's \<Rightarrow> error + 's) \<Rightarrow> (string \<times> json) list \<Rightarrow> 's \<Rightarrow> error + 's" where
  "forEachKey callback [] st = Inr st"
| "forEachKey callback (kv # kvs) st =
     (case callback kv st of Inl e \<Rightarrow> Inl e | Inr st' \<Rightarrow> forEachKey callback kvs st')"

fun forEachQuery ::
  "(string \<times> json \<Rightarrow> 's \<Rightarrow> error + 's) \<Rightarrow> json list \<Rightarrow> 's \<Rightarrow> error + 's" where
  "forEachQuery callback [] st = Inr st"
| "forEachQuery callback (query # rest) st =
     (case objectEntries query of
        Inl e \<Rightarrow> Inl e
      | Inr kvs \<Rightarrow>
          (case forEachKey callback kvs st of
             Inl e \<Rightarrow> Inl e
           | Inr st' \<Rightarrow> forEachQuery callback rest st'))"

text \<open>
  The locals of one \<open>getAllJoins\<close> call that its callback mutates: the alias provider,
  the relations seen on this level, the children for the next level and the joins. In
  the callback, an inherited member in the place of the aliases has no \<open>modelTo\<close>,
  and \<open>_joinReference\<close> throws on it (the guard of the callback keeps that from
  happening).
\<close>

record Level =
  provider :: TableAliasProvider
  relations' :: SeenRelations
  children :: "(ModelWrapper \<times> json) list"
  joins :: "Join list"

definition joinCallback ::
  "SearchQueryBuilder \<Rightarrow> ModelWrapper \<Rightarrow> string \<times> json \<Rightarrow> Level \<Rightarrow> error + Level" where
  "joinCallback self rootModel kv st =
     (let propertyName = fst kv; query = snd kv;
          preserveCase = preserveColumnCase self
      in if isRelation rootModel propertyName \<and> relations' st propertyName = None then
           (case trackAliases self rootModel propertyName (provider st) (relations' st) preserveCase of
              Inl e \<Rightarrow> Inl e
            | Inr (Inherited, p', seen') \<Rightarrow> Inl TypeError
            | Inr (Tracked aliases, p', seen') \<Rightarrow>
                Inr \<lparr>provider = p',
                     relations' = seen',
                     children = children st @ [(a_modelTo aliases, query)],
                     joins = joins st @
                       (case a_modelThrough aliases of
                          None \<Rightarrow>
                            [joinReference (a_keyFrom aliases) (a_modelTo aliases)
                               (a_relation aliases) (a_table aliases) preserveCase]
                        | Some through \<Rightarrow>
                            joinMapping self (a_keyFrom aliases) (a_modelTo aliases) through
                              (a_relation aliases) (a_table aliases) preserveCase)\<rparr>)
         else Inr st)"

text \<open>
  The parameter \<open>{ and = [], or = [] }\<close> and \<open>and.concat(or).concat(order)\<close>:
  destructuring throws on \<open>null\<close> and \<open>undefined\<close>, a default replaces
  \<open>undefined\<close> only, \<open>and\<close> has to be an array for the walk to run, and
  \<open>concat\<close> appends an argument that is no array as one element.
\<close>

definition orDefault :: "json \<Rightarrow> json" where
  "orDefault v = (if v = JUndefined then JArr [] else v)"

definition concatArg :: "json \<Rightarrow> json list" where
  "concatArg v = (case v of JArr ys \<Rightarrow> ys | _ \<Rightarrow> [v])"

definition filtersOf :: "json \<Rightarrow> json list \<Rightarrow> error + json list" where
  "filtersOf query order =
     (case getProp query ''and'' of
        Inl e \<Rightarrow> Inl e
      | Inr a \<Rightarrow>
          (case getProp query ''or'' of
             Inl e \<Rightarrow> Inl e
           | Inr b \<Rightarrow>
               (case orDefault a of
                  JArr xs \<Rightarrow> Inr (xs @ concatArg (orDefault b) @ order)
                | _ \<Rightarrow> Inl TypeError)))"

text \<open>The order passed to a child: \<open>[query]\<close> if \<open>!query.and && !query.or\<close>.\<close>

definition childOrder :: "json \<Rightarrow> error + json list" where
  "childOrder query =
     (case getProp query ''and'' of
        Inl e \<Rightarrow> Inl e
      | Inr a \<Rightarrow>
          (case getProp query ''or'' of
             Inl e \<Rightarrow> Inl e
           | Inr b \<Rightarrow> Inr (if \<not> truthy a \<and> \<not> truthy b then [query] else [])))"

text \<open>
  \<open>getAllJoins(rootModel, { and = [], or = [] }, order, aliasProvider)\<close>. The walk over
  the filters of one level collects joins and children; \<open>children.reduce\<close> appends
  the joins of the lower levels (\<open>lowerJoins\<close>), every child with a fresh map of seen
  relations and the one alias provider. The recursion ends because a child's query is a
  value inside one of the filters; \<open>weight\<close> is the measure that shows it.
\<close>

fun weight :: "json \<Rightarrow> nat" and weights :: "(string \<times> json) list \<Rightarrow> nat" and weightl :: "json list \<Rightarrow> nat" where
  "weight (JArr xs) = Suc (weightl xs)"
| "weight (JObj kvs) = Suc (weights kvs)"
| "weight JUndefined = 1"
| "weight JNull = 1"
| "weight (JBool b) = 1"
| "weight (JNum n) = 1"
| "weight (JStr s) = 1"
| "weight (JRegExp s i) = 1"
| "weights [] = 0"
| "weights (kv # kvs) = 2 * weight (snd kv) + 2 + weights kvs"
| "weightl [] = 0"
| "weightl (x # xs) = weight x + weightl xs"

definition filtersWeight :: "error + json list \<Rightarrow> nat" where
  "filtersWeight r = (case r of Inl e \<Rightarrow> 0 | Inr fs \<Rightarrow> Suc (weightl fs))"

fun childrenWeight :: "(ModelWrapper \<times> json) list \<Rightarrow> nat" where
  "childrenWeight [] = 0"
| "childrenWeight (c # cs) = 2 * weight (snd c) + 2 + childrenWeight cs"

function getAllJoins ::
  "SearchQueryBuilder \<Rightarrow> ModelWrapper \<Rightarrow> json \<Rightarrow> json list \<Rightarrow> TableAliasProvider
     \<Rightarrow> error + (Join list \<times> TableAliasProvider)"
  and lowerJoins ::
  "SearchQueryBuilder \<Rightarrow> (ModelWrapper \<times> json) list \<Rightarrow> TableAliasProvider
     \<Rightarrow> error + (Join list \<times> TableAliasProvider)" where
  "getAllJoins self rootModel query order aliasProvider =
     (case filtersOf query order of
        Inl e \<Rightarrow> Inl e
      | Inr filters \<Rightarrow>
          (case forEachQuery (joinCallback self rootModel) filters
                  \<lparr>provider = aliasProvider, relations' = emptyObject, children = [], joins = []\<rparr> of
             Inl e \<Rightarrow> Inl e
           | Inr st \<Rightarrow>
               (case lowerJoins self (children st) (provider st) of
                  Inl e \<Rightarrow> Inl e
                | Inr (lower, p') \<Rightarrow> Inr (joins st @ lower, p'))))"
| "lowerJoins self [] aliasProvider = Inr ([], aliasProvider)"
| "lowerJoins self (child # rest) aliasProvider =
     (case childOrder (snd child) of
        Inl e \<Rightarrow> Inl e
      | Inr childOrder' \<Rightarrow>
          (case getAllJoins self (fst child) (snd child) childOrder' aliasProvider of
             Inl e \<Rightarrow> Inl e
           | Inr (lowerJoins', p1) \<Rightarrow>
               (case lowerJoins self rest p1 of
                  Inl e \<Rightarrow> Inl e
                | Inr (allJoins, p2) \<Rightarrow> Inr (lowerJoins' @ allJoins, p2))))"
  by pat_completeness auto

lemma weight_pos: "0 < weight x"
  by (cases x) auto

lemma weightl_append: "weightl (xs @ ys) = weightl xs + weightl ys"
  by (induction xs) auto

lemma childrenWeight_append: "childrenWeight (xs @ ys) = childrenWeight xs + childrenWeight ys"
  by (induction xs) auto

lemma weight_map_of: "map_of kvs k = Some v \<Longrightarrow> 2 * weight v + 2 \<le> weights kvs"
  by (induction kvs) (auto split: if_splits)

lemma weight_map_of2:
  "map_of kvs k = Some v \<Longrightarrow> map_of kvs k' = Some v' \<Longrightarrow> k \<noteq> k' \<Longrightarrow>
     2 * weight v + 2 + (2 * weight v' + 2) \<le> weights kvs"
proof (induction kvs)
  case Nil then show ?case by simp
next
  case (Cons kv kvs)
  then show ?case
    using weight_map_of[of kvs k v] weight_map_of[of kvs k' v']
    by (auto split: if_splits)
qed

lemma weightl_concatArg: "weightl (concatArg v) \<le> weight v"
  by (cases v) (auto simp: concatArg_def)

lemma joinCallback_children:
  "joinCallback self m kv st = Inr st' \<Longrightarrow>
     childrenWeight (children st') \<le> childrenWeight (children st) + 2 * weight (snd kv) + 2"
  by (auto simp: joinCallback_def Let_def childrenWeight_append
      split: if_splits sum.splits prod.splits Seen.splits)

lemma forEachKey_children:
  "forEachKey (joinCallback self m) kvs st = Inr st' \<Longrightarrow>
     childrenWeight (children st') \<le> childrenWeight (children st) + weights kvs"
proof (induction kvs arbitrary: st)
  case Nil then show ?case by simp
next
  case (Cons kv kvs)
  then show ?case
    by (fastforce split: sum.splits dest!: joinCallback_children)
qed

lemma objectEntries_weight: "objectEntries q = Inr kvs \<Longrightarrow> weights kvs < weight q"
  by (cases q) auto

lemma forEachQuery_children:
  "forEachQuery (joinCallback self m) fs st = Inr st' \<Longrightarrow>
     childrenWeight (children st') \<le> childrenWeight (children st) + weightl fs"
proof (induction fs arbitrary: st)
  case Nil then show ?case by simp
next
  case (Cons f fs)
  then show ?case
    by (fastforce split: sum.splits dest!: forEachKey_children objectEntries_weight)
qed

lemma groups_weight:
  assumes "getProp q ''and'' = Inr a" "getProp q ''or'' = Inr b" "orDefault a = JArr xs"
  shows "weightl xs + weightl (concatArg (orDefault b)) \<le> weight q"
proof (cases q)
  case (JObj kvs)
  have a: "a = JUndefined \<or> map_of kvs ''and'' = Some a"
    using assms(1) JObj by (auto split: option.splits)
  have b: "b = JUndefined \<or> map_of kvs ''or'' = Some b"
    using assms(2) JObj by (auto split: option.splits)
  have xs: "weightl xs \<le> weight (orDefault a)" using assms(3) by simp
  have ys: "weightl (concatArg (orDefault b)) \<le> weight (orDefault b)" by (rule weightl_concatArg)
  have ud: "weightl (concatArg (orDefault JUndefined)) = 0" by (simp add: orDefault_def concatArg_def)
  from a b show ?thesis
  proof (elim disjE)
    assume "a = JUndefined" "b = JUndefined"
    then show ?thesis using assms(3) by (simp add: orDefault_def concatArg_def)
  next
    assume h: "a = JUndefined" "map_of kvs ''or'' = Some b"
    then have "xs = []" using assms(3) by (simp add: orDefault_def)
    moreover have "weight (orDefault b) \<le> weight b + 1" by (simp add: orDefault_def)
    ultimately show ?thesis using weight_map_of[OF h(2)] ys JObj by simp
  next
    assume h: "map_of kvs ''and'' = Some a" "b = JUndefined"
    have "weight (orDefault a) \<le> weight a + 1" by (simp add: orDefault_def)
    then show ?thesis using weight_map_of[OF h(1)] xs ud h(2) JObj by simp
  next
    assume h: "map_of kvs ''and'' = Some a" "map_of kvs ''or'' = Some b"
    have "weight (orDefault a) \<le> weight a + 1" "weight (orDefault b) \<le> weight b + 1"
      by (simp_all add: orDefault_def)
    then show ?thesis using weight_map_of2[OF h(1) h(2)] xs ys JObj by simp
  qed
qed (use assms in \<open>auto simp: orDefault_def concatArg_def split: if_splits\<close>)

lemma filtersOf_childOrder_weight:
  assumes "childOrder q = Inr co" "filtersOf q co = Inr fs"
  shows "weightl fs \<le> 2 * weight q"
proof -
  obtain a b where ab: "getProp q ''and'' = Inr a" "getProp q ''or'' = Inr b"
    using assms(1) by (auto simp: childOrder_def split: sum.splits)
  obtain xs where xs: "orDefault a = JArr xs" and fs: "fs = xs @ concatArg (orDefault b) @ co"
    using assms(2) ab by (auto simp: filtersOf_def split: json.splits)
  have "weightl co \<le> weight q"
    using assms(1) ab by (auto simp: childOrder_def split: if_splits)
  then show ?thesis
    using groups_weight[OF ab xs] by (simp add: fs weightl_append)
qed

termination getAllJoins
proof (relation "measure (\<lambda>x. case x of
            Inl (self, m, q, order, p) \<Rightarrow> filtersWeight (filtersOf q order)
          | Inr (self, cs, p) \<Rightarrow> childrenWeight cs)", goal_cases)
  case 1
  then show ?case by simp
next
  case (2 self rootModel query order aliasProvider filters st)
  then show ?case
    using forEachQuery_children[OF 2(2)] by (simp add: filtersWeight_def)
next
  case (3 self child rest aliasProvider childOrder')
  then show ?case
    using filtersOf_childOrder_weight[OF 3(1)]
    by (cases "filtersOf (snd child) childOrder'") (auto simp: filtersWeight_def)
next
  case (4 self child rest aliasProvider childOrder' x y z)
  then show ?case by simp
qed

declare getAllJoins.simps [simp del]

section \<open>The query builder: order\<close>

text \<open>\<open>applyPropertyOrder({orderAlias, property, direction}, builder)\<close>.\<close>

definition applyPropertyOrder :: "string \<Rightarrow> string \<Rightarrow> json \<Rightarrow> Builder \<Rightarrow> Builder" where
  "applyPropertyOrder orderAlias property direction builder =
     builder
       @ [if direction = JStr ''asc'' then Min orderAlias property else Max orderAlias property]
       @ [OrderBy orderAlias direction]"

text \<open>
  What \<open>_handleOrder\<close> and \<open>applyOrder\<close> mutate: the builder, the alias provider
  and the one map of seen relations that \<open>applyOrder\<close> creates.
\<close>

record OrderState =
  o_builder :: Builder
  o_provider :: TableAliasProvider
  o_relations :: SeenRelations

text \<open>
  \<open>_handleOrder(order, builder, rootModel, aliasProvider, relations, options)\<close>.
  \<open>_.mapValues\<close> visits the own keys of an object and the indices of a string or
  an array, and nothing for any other value. The two tests of a key are independent
  \<open>if\<close>s: a name that is a relation and a property passes both. An index names no
  relation and no property, so a string or an array adds nothing.

  The root model is \<open>undefined\<close> (\<open>None\<close>) when \<open>_trackAliases\<close> handed back
  an inherited member, which has no \<open>modelTo\<close>; then the first key that is visited,
  an index too, throws on \<open>rootModel.isRelation\<close>.
\<close>

fun handleOrder ::
  "SearchQueryBuilder \<Rightarrow> json \<Rightarrow> ModelWrapper option \<Rightarrow> OrderState \<Rightarrow> error + OrderState"
  and handleOrderKeys ::
  "SearchQueryBuilder \<Rightarrow> (string \<times> json) list \<Rightarrow> ModelWrapper option \<Rightarrow> OrderState
     \<Rightarrow> error + OrderState" where
  "handleOrder self (JObj kvs) root st = handleOrderKeys self kvs root st"
| "handleOrder self (JStr s) root st = (if root = None \<and> s \<noteq> [] then Inl TypeError else Inr st)"
| "handleOrder self (JArr xs) root st = (if root = None \<and> xs \<noteq> [] then Inl TypeError else Inr st)"
| "handleOrder self JUndefined root st = Inr st"
| "handleOrder self JNull root st = Inr st"
| "handleOrder self (JBool b) root st = Inr st"
| "handleOrder self (JNum n) root st = Inr st"
| "handleOrder self (JRegExp s i) root st = Inr st"
| "handleOrderKeys self [] root st = Inr st"
| "handleOrderKeys self ((propertyName, subOrder) # rest) None st = Inl TypeError"
| "handleOrderKeys self ((propertyName, subOrder) # rest) (Some rootModel) st =
     (case (if isRelation rootModel propertyName then
              (case trackAliases self rootModel propertyName (o_provider st) (o_relations st)
                      (preserveColumnCase self) of
                 Inl e \<Rightarrow> Inl e
               | Inr (Inherited, p', seen') \<Rightarrow>
                   handleOrder self subOrder None (st\<lparr>o_provider := p', o_relations := seen'\<rparr>)
               | Inr (Tracked aliases, p', seen') \<Rightarrow>
                   handleOrder self subOrder (Some (a_modelTo aliases))
                     (st\<lparr>o_provider := p', o_relations := seen'\<rparr>))
            else Inr st) of
        Inl e \<Rightarrow> Inl e
      | Inr st1 \<Rightarrow>
          handleOrderKeys self rest (Some rootModel)
            (if isProperty rootModel propertyName then
               st1\<lparr>o_builder :=
                     applyPropertyOrder (aliasName rootModel @ ''_'' @ propertyName)
                       (getColumnName rootModel propertyName (preserveColumnCase self))
                       subOrder (o_builder st1)\<rparr>
             else st1))"

text \<open>\<open>applyOrder(builder, rootModel, orderClauses, aliasProvider)\<close>.\<close>

fun forEachOrder ::
  "SearchQueryBuilder \<Rightarrow> json list \<Rightarrow> ModelWrapper \<Rightarrow> OrderState \<Rightarrow> error + OrderState" where
  "forEachOrder self [] rootModel st = Inr st"
| "forEachOrder self (order # rest) rootModel st =
     (case handleOrder self order (Some rootModel) st of
        Inl e \<Rightarrow> Inl e
      | Inr st' \<Rightarrow> forEachOrder self rest rootModel st')"

definition applyOrder ::
  "SearchQueryBuilder \<Rightarrow> Builder \<Rightarrow> ModelWrapper \<Rightarrow> json list \<Rightarrow> TableAliasProvider
     \<Rightarrow> error + (Builder \<times> TableAliasProvider)" where
  "applyOrder self builder rootModel orderClauses aliasProvider =
     (case forEachOrder self orderClauses rootModel
             \<lparr>o_builder = builder, o_provider = aliasProvider, o_relations = emptyObject\<rparr> of
        Inl e \<Rightarrow> Inl e
      | Inr st \<Rightarrow> Inr (o_builder st, o_provider st))"

section \<open>An example schema\<close>

text \<open>
  The models that the repository's tests query: books with their authors (through a
  pivot), main author, publisher and pages.
\<close>

definition plain :: "string list \<Rightarrow> (string \<times> (string \<times> string) list) list" where
  "plain names = map (\<lambda>n. (n, [])) names"

definition Book :: Model where
  "Book = \<lparr>modelName = ''Book'', connector = ''postgresql'', tableName = ''public.book'',
           properties = plain [''id'', ''title'', ''publisherId'', ''mainAuthorId''],
           ids = [''id''],
           relations =
             [\<lparr>relName = ''authors'', keyFrom = ''id'', keyTo = ''bookId'', modelTo = ''Author'',
               modelThrough = Some ''AuthorBook'', keyThrough = ''authorId''\<rparr>,
              \<lparr>relName = ''publisher'', keyFrom = ''publisherId'', keyTo = ''id'',
               modelTo = ''Publisher'', modelThrough = None, keyThrough = []\<rparr>,
              \<lparr>relName = ''pages'', keyFrom = ''id'', keyTo = ''bookId'', modelTo = ''Page'',
               modelThrough = None, keyThrough = []\<rparr>,
              \<lparr>relName = ''mainAuthor'', keyFrom = ''mainAuthorId'', keyTo = ''id'',
               modelTo = ''Author'', modelThrough = None, keyThrough = []\<rparr>]\<rparr>"

definition Author :: Model where
  "Author = \<lparr>modelName = ''Author'', connector = ''postgresql'', tableName = ''public.author'',
             properties = plain [''id'', ''firstName'', ''lastName''],
             ids = [''id''],
             relations =
               [\<lparr>relName = ''books'', keyFrom = ''id'', keyTo = ''authorId'', modelTo = ''Book'',
                 modelThrough = Some ''AuthorBook'', keyThrough = ''bookId''\<rparr>]\<rparr>"

definition Publisher :: Model where
  "Publisher = \<lparr>modelName = ''Publisher'', connector = ''postgresql'',
                tableName = ''public.publisher'',
                properties = plain [''id'', ''name''],
                ids = [''id''],
                relations =
                  [\<lparr>relName = ''books'', keyFrom = ''id'', keyTo = ''publisherId'',
                    modelTo = ''Book'', modelThrough = None, keyThrough = []\<rparr>]\<rparr>"

definition Page :: Model where
  "Page = \<lparr>modelName = ''Page'', connector = ''postgresql'', tableName = ''public.page'',
           properties = plain [''id'', ''number'', ''bookId''],
           ids = [''id''],
           relations =
             [\<lparr>relName = ''book'', keyFrom = ''bookId'', keyTo = ''id'', modelTo = ''Book'',
               modelThrough = None, keyThrough = []\<rparr>]\<rparr>"

definition AuthorBook :: Model where
  "AuthorBook = \<lparr>modelName = ''AuthorBook'', connector = ''postgresql'',
                 tableName = ''public.authorbook'',
                 properties = plain [''id'', ''authorId'', ''bookId''],
                 ids = [''id''],
                 relations = []\<rparr>"

definition exampleModels :: Registry where
  "exampleModels n =
     (if n = ''Book'' then Book else if n = ''Author'' then Author
      else if n = ''Publisher'' then Publisher else if n = ''Page'' then Page
      else AuthorBook)"

definition exampleBuilder :: SearchQueryBuilder where
  "exampleBuilder = \<lparr>models = exampleModels, preserveColumnCase = True\<rparr>"

definition rootBook :: ModelWrapper where
  "rootBook = fromModel Book ''Book_0''"

section \<open>Operator application: its properties\<close>

lemma falsy_iff: "\<not> truthy v \<longleftrightarrow> v \<in> {JUndefined, JNull, JBool False, JNum 0, JStr []}"
  by (cases v) auto

lemma find_supported_mem:
  "find P supportedOperators = Some op \<Longrightarrow> op \<in> set supportedOperators"
  by (auto simp: find_Some_iff)

lemma find_first:
  assumes "i < length xs" "P (xs ! i)" "\<forall>j<i. \<not> P (xs ! j)"
  shows "find P xs = Some (xs ! i)"
  using assms by (auto simp: find_Some_iff)

lemma find_single:
  "op \<in> set supportedOperators \<Longrightarrow> find (\<lambda>k. k = op) supportedOperators = Some op"
  unfolding supportedOperators_def by auto

lemma getProp_no_UnknownOperatorError: "getProp x k \<noteq> Inl (UnknownOperatorError p v)"
  by (cases x) auto

lemma mapped_no_UnknownOperatorError: "mapped om k \<noteq> Inl (UnknownOperatorError p v)"
  by (simp add: mapped_def split: option.splits)

lemma applyPropertyFilter_no_UnknownOperatorError:
  "applyPropertyFilter property value builder rootModel \<noteq> Inl (UnknownOperatorError p v)"
proof (cases "truthy value")
  case False
  then show ?thesis by (simp add: applyPropertyFilter_def)
next
  case True
  show ?thesis
  proof (cases "find (\<lambda>op. hasOwn value op) supportedOperators")
    case None
    then show ?thesis using True by (simp add: applyPropertyFilter_def)
  next
    case (Some op)
    then have "op \<in> set supportedOperators" by (rule find_supported_mem)
    then show ?thesis
      unfolding supportedOperators_def
      apply simp
      apply (elim disjE)
      using True Some
                   apply (simp_all add: applyPropertyFilter_def Let_def split: sum.splits)
                   apply (auto simp: getProp_no_UnknownOperatorError mapped_no_UnknownOperatorError)
      done
  qed
qed

text \<open>
  C5: the claim is that every leaf whose truthy value object carries an operator outside
  the supported set fails with an UnknownOperatorError and is never silently ignored.
  The code does not do that: the operator is searched among the supported ones only, a
  value with no supported operator leaves the builder as it is, and the \<open>default\<close>
  branch that throws the error is never reached. The leaf \<open>{foo: 1}\<close> is ignored,
  and no input makes operator application raise UnknownOperatorError.
\<close>

theorem applyPropertyFilter_unknown_operator_ignored:
  "applyPropertyFilter ''Book_0.title'' (JObj [(''foo'', JNum 1)]) builder rootModel = Inr builder
   \<and> (\<forall>property value b m p v.
         applyPropertyFilter property value b m \<noteq> Inl (UnknownOperatorError p v))"
  using applyPropertyFilter_no_UnknownOperatorError
  by (simp add: applyPropertyFilter_def supportedOperators_def)

text \<open>
  C8: for every property leaf whose value is falsy (null, undefined, the empty string,
  false, 0), operator application adds no predicate and returns without error: the
  builder comes back unchanged.
\<close>

theorem applyPropertyFilter_falsy:
  "\<not> truthy value \<Longrightarrow> applyPropertyFilter property value builder rootModel = Inr builder"
  by (simp add: applyPropertyFilter_def)

theorem applyPropertyFilter_falsy_witness:
  "\<not> truthy (JNum 0) \<and>
   applyPropertyFilter ''Book_0.title'' (JNum 0) [Where ''Book_0.id'' (JNum 1)] rootBook
     = Inr [Where ''Book_0.id'' (JNum 1)]"
proof -
  have h: "\<not> truthy (JNum 0)" by simp
  show ?thesis using h applyPropertyFilter_falsy [OF h] by simp
qed

lemma find_supported:
  assumes "i < length supportedOperators" "map_of kvs (supportedOperators ! i) = Some content"
    "\<forall>j<i. map_of kvs (supportedOperators ! j) = None"
  shows "find (hasOwn (JObj kvs)) supportedOperators = Some (supportedOperators ! i)"
  using assms by (intro find_first) auto

lemma getProp_defined:
  "content \<notin> {JNull, JUndefined} \<Longrightarrow> \<exists>v. getProp content k = Inr v"
  by (cases content) auto

text \<open>
  C10: when the value object of a leaf carries supported operator keys, operator
  application makes exactly one call on the builder, the one of the operator that comes
  first in the order of \<open>supportedOperators\<close> (\<open>=\<close>, neq, lt, lte, gt, gte, like,
  nlike, ilike, nilike, inq, nin, between, regexp), on the property and with the operand
  of that operator: \<open>where\<close> for \<open>=\<close>, \<open>whereBetween\<close>, \<open>whereIn\<close> and
  \<open>whereNotIn\<close> for between, inq and nin, and a raw comparison with the connector's
  token for the others (for regexp the token of the case flag, with the pattern's
  source). Every other key of the object is ignored: the result is that of the object
  holding that one operator alone. (The connector has an operator map and a regexp
  pattern is not null, so that nothing throws; the operand of between is an array of two
  values, as knex demands.)
\<close>

theorem applyPropertyFilter_first_operator:
  assumes i: "i < length supportedOperators"
    and op: "op = supportedOperators ! i"
    and has: "map_of kvs op = Some content"
    and first: "\<forall>j<i. map_of kvs (supportedOperators ! j) = None"
    and conn: "getOperatorMap rootModel = Some operatorMap"
    and re: "op = ''regexp'' \<longrightarrow> content \<notin> {JNull, JUndefined}"
    and pair: "op = ''between'' \<longrightarrow> (\<exists>lo hi. content = JArr [lo, hi])"
  shows "\<exists>ignoreCase source.
           (op = ''regexp'' \<longrightarrow>
              getProp content ''ignoreCase'' = Inr ignoreCase \<and>
              getProp content ''source'' = Inr source) \<and>
           applyPropertyFilter property (JObj kvs) builder rootModel =
             Inr (builder @
               [if op = ''='' then Where property content
                else if op = ''between'' then WhereBetween property content
                else if op = ''inq'' then WhereIn property content
                else if op = ''nin'' then WhereNotIn property content
                else if op = ''regexp'' then
                  WhereRaw ('':property: ''
                      @ (case map_of operatorMap (if truthy ignoreCase then ''iregexp'' else ''regexp'') of
                           None \<Rightarrow> ''undefined'' | Some token \<Rightarrow> token)
                      @ '' :value'') property source
                else WhereRaw ('':property: ''
                      @ (case map_of operatorMap op of None \<Rightarrow> ''undefined'' | Some token \<Rightarrow> token)
                      @ '' :value'') property content]) \<and>
           applyPropertyFilter property (JObj kvs) builder rootModel =
             applyPropertyFilter property (JObj [(op, content)]) builder rootModel"
proof -
  have f: "find (hasOwn (JObj kvs)) supportedOperators = Some op"
    using find_supported[OF i _ first] has op by simp
  have mem: "op \<in> set supportedOperators" using i op by simp
  have "hasOwn (JObj [(op, content)]) = (\<lambda>k. k = op)"
    by (auto simp: fun_eq_iff)
  then have f1: "find (hasOwn (JObj [(op, content)])) supportedOperators = Some op"
    using find_single[OF mem] by simp
  obtain ic src where rc: "op = ''regexp'' \<longrightarrow>
      getProp content ''ignoreCase'' = Inr ic \<and> getProp content ''source'' = Inr src"
    using re getProp_defined[of content] by (cases "op = ''regexp''") blast+
  have "applyPropertyFilter property (JObj kvs) builder rootModel =
             Inr (builder @
               [if op = ''='' then Where property content
                else if op = ''between'' then WhereBetween property content
                else if op = ''inq'' then WhereIn property content
                else if op = ''nin'' then WhereNotIn property content
                else if op = ''regexp'' then
                  WhereRaw ('':property: ''
                      @ (case map_of operatorMap (if truthy ic then ''iregexp'' else ''regexp'') of
                           None \<Rightarrow> ''undefined'' | Some token \<Rightarrow> token)
                      @ '' :value'') property src
                else WhereRaw ('':property: ''
                      @ (case map_of operatorMap op of None \<Rightarrow> ''undefined'' | Some token \<Rightarrow> token)
                      @ '' :value'') property content]) \<and>
           applyPropertyFilter property (JObj kvs) builder rootModel =
             applyPropertyFilter property (JObj [(op, content)]) builder rootModel"
    using mem
    unfolding supportedOperators_def
    apply simp
    apply (elim disjE)
    using f f1 has conn rc
                 apply (simp_all add: applyPropertyFilter_def Let_def mapped_def rawTemplate_def
        del: hasOwn.simps)
    done
  with rc show ?thesis by blast
qed

lemma getOperatorMap_rootBook:
  "getOperatorMap rootBook =
     Some [(''neq'', ''!=''), (''gt'', ''>''), (''lt'', ''<''), (''gte'', ''>=''),
           (''lte'', ''<=''), (''like'', ''like''), (''ilike'', ''ilike''),
           (''nlike'', ''not like''), (''nilike'', ''not ilike''), (''regexp'', ''~''),
           (''iregexp'', ''~*'')]"
  by (simp add: getOperatorMap_def Let_def getConnectorName_def rootBook_def fromModel_def
      Book_def operatorMaps_def)

lemma first_take:
  assumes "i \<le> length xs" "\<forall>k \<in> set (take i xs). P k"
  shows "\<forall>j<i. P (xs ! j)"
proof (intro allI impI)
  fix j assume j: "j < i"
  then have "take i xs ! j = xs ! j" by simp
  moreover have "take i xs ! j \<in> set (take i xs)" using j assms(1) by (intro nth_mem) simp
  ultimately show "P (xs ! j)" using assms(2) by auto
qed

theorem applyPropertyFilter_first_operator_witness:
  "supportedOperators ! 2 = ''lt'' \<and>
   map_of [(''gt'', JNum 1), (''lt'', JNum 5)] ''lt'' = Some (JNum 5) \<and>
   map_of [(''gt'', JNum 1), (''lt'', JNum 5)] (supportedOperators ! 0) = None \<and>
   map_of [(''gt'', JNum 1), (''lt'', JNum 5)] (supportedOperators ! 1) = None \<and>
   applyPropertyFilter ''Book_0.id'' (JObj [(''gt'', JNum 1), (''lt'', JNum 5)])
       [Where ''Book_0.title'' (JStr ''Halo'')] rootBook
     = Inr [Where ''Book_0.title'' (JStr ''Halo''),
            WhereRaw '':property: < :value'' ''Book_0.id'' (JNum 5)] \<and>
   supportedOperators ! 12 = ''between'' \<and>
   applyPropertyFilter ''Book_0.id''
       (JObj [(''regexp'', JRegExp ''^1'' False), (''between'', JArr [JNum 1, JNum 9])]) [] rootBook
     = Inr [WhereBetween ''Book_0.id'' (JArr [JNum 1, JNum 9])] \<and>
   supportedOperators ! 13 = ''regexp'' \<and>
   applyPropertyFilter ''Book_0.title'' (JObj [(''regexp'', JRegExp ''^Mich'' True)]) [] rootBook
     = Inr [WhereRaw '':property: ~* :value'' ''Book_0.title'' (JStr ''^Mich'')]"
proof -
  let ?kvs = "[(''gt'', JNum 1), (''lt'', JNum 5)]"
  have i: "(2::nat) < length supportedOperators" by (simp add: supportedOperators_def)
  have op: "''lt'' = supportedOperators ! 2" by (simp add: supportedOperators_def)
  have has: "map_of ?kvs ''lt'' = Some (JNum 5)" by simp
  have n0: "map_of ?kvs (supportedOperators ! 0) = None" by (simp add: supportedOperators_def)
  have n1: "map_of ?kvs (supportedOperators ! 1) = None" by (simp add: supportedOperators_def)
  have first: "\<forall>j<2. map_of ?kvs (supportedOperators ! j) = None"
    by (rule first_take) (simp_all add: supportedOperators_def)
  have re: "''lt'' = ''regexp'' \<longrightarrow> JNum 5 \<notin> {JNull, JUndefined}" by simp
  have pair: "''lt'' = ''between'' \<longrightarrow> (\<exists>lo hi. JNum 5 = JArr [lo, hi])" by simp
  from applyPropertyFilter_first_operator [OF i op has first getOperatorMap_rootBook re pair,
      of "''Book_0.id''" "[Where ''Book_0.title'' (JStr ''Halo'')]"]
  have a: "applyPropertyFilter ''Book_0.id'' (JObj ?kvs) [Where ''Book_0.title'' (JStr ''Halo'')] rootBook
     = Inr [Where ''Book_0.title'' (JStr ''Halo''),
            WhereRaw '':property: < :value'' ''Book_0.id'' (JNum 5)]"
    by simp
  let ?kb = "[(''regexp'', JRegExp ''^1'' False), (''between'', JArr [JNum 1, JNum 9])]"
  have ib: "(12::nat) < length supportedOperators" by (simp add: supportedOperators_def)
  have opb: "''between'' = supportedOperators ! 12" by (simp add: supportedOperators_def)
  have hasb: "map_of ?kb ''between'' = Some (JArr [JNum 1, JNum 9])" by simp
  have firstb: "\<forall>j<12. map_of ?kb (supportedOperators ! j) = None"
    by (rule first_take) (simp_all add: supportedOperators_def)
  have reb: "''between'' = ''regexp'' \<longrightarrow> JArr [JNum 1, JNum 9] \<notin> {JNull, JUndefined}" by simp
  have pairb: "''between'' = ''between'' \<longrightarrow> (\<exists>lo hi. JArr [JNum 1, JNum 9] = JArr [lo, hi])" by simp
  from applyPropertyFilter_first_operator [OF ib opb hasb firstb getOperatorMap_rootBook reb pairb,
      of "''Book_0.id''" "[]"]
  have b: "applyPropertyFilter ''Book_0.id'' (JObj ?kb) [] rootBook
     = Inr [WhereBetween ''Book_0.id'' (JArr [JNum 1, JNum 9])]"
    by simp
  let ?kr = "[(''regexp'', JRegExp ''^Mich'' True)]"
  have ir: "(13::nat) < length supportedOperators" by (simp add: supportedOperators_def)
  have opr: "''regexp'' = supportedOperators ! 13" by (simp add: supportedOperators_def)
  have hasr: "map_of ?kr ''regexp'' = Some (JRegExp ''^Mich'' True)" by simp
  have firstr: "\<forall>j<13. map_of ?kr (supportedOperators ! j) = None"
    by (rule first_take) (simp_all add: supportedOperators_def)
  have rer: "''regexp'' = ''regexp'' \<longrightarrow> JRegExp ''^Mich'' True \<notin> {JNull, JUndefined}" by simp
  have pairr: "''regexp'' = ''between'' \<longrightarrow> (\<exists>lo hi. JRegExp ''^Mich'' True = JArr [lo, hi])" by simp
  from applyPropertyFilter_first_operator [OF ir opr hasr firstr getOperatorMap_rootBook rer pairr,
      of "''Book_0.title''" "[]"]
  have c: "applyPropertyFilter ''Book_0.title'' (JObj ?kr) [] rootBook
     = Inr [WhereRaw '':property: ~* :value'' ''Book_0.title'' (JStr ''^Mich'')]"
    by simp
  from op [symmetric] opb [symmetric] opr [symmetric] has n0 n1 a b c show ?thesis by blast
qed

section \<open>Join collection: its properties\<close>

lemma showNat_small:
  "showNat 0 = ''0''" "showNat (Suc 0) = ''1''" "showNat 1 = ''1''" "showNat 2 = ''2''" "showNat 3 = ''3''" "showNat 4 = ''4''"
  by (simp_all add: showNat.simps digit_def digits_def)

definition authorsRel :: Relation where
  "authorsRel = \<lparr>relName = ''authors'', keyFrom = ''id'', keyTo = ''bookId'', modelTo = ''Author'',
               modelThrough = Some ''AuthorBook'', keyThrough = ''authorId''\<rparr>"

definition level0 :: "TableAliasProvider \<Rightarrow> Level" where
  "level0 p = \<lparr>provider = p, relations' = emptyObject, children = [], joins = []\<rparr>"

lemmas example_defs =
  exampleBuilder_def exampleModels_def rootBook_def Book_def Author_def Publisher_def Page_def
  AuthorBook_def plain_def fromModel_def

lemmas wrapper_defs =
  getRelation_def isRelation_def isProperty_def getName_def getAliasedTable_def getColumnName_def
  columnOf_def getIdProperties_def getPropertyQueriedThrough_def

lemmas alias_defs = createAlias_def providerCreateAlias_def aliasSegments_def showNat_small

text \<open>
  C2: for a relation leaf (first met on its level) whose relation has a through model,
  join collection emits exactly two joins, in this order: the pivot table, joined from
  the root's \<open>keyFrom\<close> on the relation's \<open>keyTo\<close>, then the target table,
  joined from the pivot's \<open>keyThrough\<close>. The key on the target side is the property
  that the reverse lookup \<open>getPropertyQueriedThrough\<close> returns when it returns one,
  and the target model's (first) id property when it returns null.
\<close>

theorem joinCallback_through:
  assumes rel: "getRelation rootModel name = Some rel"
    and thr: "modelThrough rel = Some t"
    and unseen: "relations' st name = None"
    and ta: "createAlias self (provider st) (getName rootModel) (Some rel) False = (targetAlias, p1)"
    and pa: "createAlias self p1 (getName rootModel) (Some rel) True = (pivotAlias, p2)"
    and target: "target = fromModel (models self (modelTo rel)) targetAlias"
    and pivot: "pivot = fromModel (models self t) pivotAlias"
    and pc: "pc = preserveColumnCase self"
  shows "\<exists>st' targetKey.
           joinCallback self rootModel (name, query) st = Inr st' \<and>
           joins st' = joins st @
             [\<lparr>table = getAliasedTable pivot,
               j_keyFrom = getColumnName rootModel (keyFrom rel) pc,
               j_keyTo = getColumnName pivot (keyTo rel) pc\<rparr>,
              \<lparr>table = getAliasedTable target,
               j_keyFrom = getColumnName pivot (keyThrough rel) pc,
               j_keyTo = getColumnName target targetKey pc\<rparr>] \<and>
           (\<forall>p. getPropertyQueriedThrough target rel = Some p \<and> p \<noteq> [] \<longrightarrow> targetKey = p) \<and>
           (\<forall>idp more. getPropertyQueriedThrough target rel = None \<and> ids (model target) = idp # more
                \<longrightarrow> targetKey = idp)"
  using assms
  by (auto simp: joinCallback_def trackAliases_def Let_def isRelation_def joinMapping_def
      getIdProperties_def split: option.splits list.splits)

theorem joinCallback_through_witness:
  "getRelation rootBook ''authors'' = Some authorsRel \<and>
   modelThrough authorsRel = Some ''AuthorBook'' \<and>
   relations' (level0 1) ''authors'' = None \<and>
   (\<exists>st'. joinCallback exampleBuilder rootBook (''authors'', JObj []) (level0 1) = Inr st' \<and>
      joins st' =
        [\<lparr>table = ''public.authorbook as Book_authors_AuthorBook_2'',
          j_keyFrom = ''Book_0.id'',
          j_keyTo = ''Book_authors_AuthorBook_2.bookId''\<rparr>,
         \<lparr>table = ''public.author as Book_authors_1'',
          j_keyFrom = ''Book_authors_AuthorBook_2.authorId'',
          j_keyTo = ''Book_authors_1.id''\<rparr>])"
proof -
  let ?target = "fromModel (models exampleBuilder (modelTo authorsRel)) ''Book_authors_1''"
  let ?pivot = "fromModel (models exampleBuilder ''AuthorBook'') ''Book_authors_AuthorBook_2''"
  have rel: "getRelation rootBook ''authors'' = Some authorsRel"
    by (simp add: example_defs wrapper_defs authorsRel_def)
  have thr: "modelThrough authorsRel = Some ''AuthorBook''" by (simp add: authorsRel_def)
  have unseen: "relations' (level0 1) ''authors'' = None"
    by (simp add: level0_def emptyObject_def objectPrototype_def)
  have ta: "createAlias exampleBuilder (provider (level0 1)) (getName rootBook) (Some authorsRel) False
              = (''Book_authors_1'', 2)"
    by (simp add: example_defs wrapper_defs alias_defs authorsRel_def level0_def)
  have pa: "createAlias exampleBuilder 2 (getName rootBook) (Some authorsRel) True
              = (''Book_authors_AuthorBook_2'', 3)"
    by (simp add: example_defs wrapper_defs alias_defs authorsRel_def)
  have look: "getPropertyQueriedThrough ?target authorsRel = Some ''id''"
    by (simp add: example_defs wrapper_defs authorsRel_def)
  from joinCallback_through [OF rel thr unseen ta pa refl refl refl, of "JObj []"]
  obtain st' targetKey where
    r: "joinCallback exampleBuilder rootBook (''authors'', JObj []) (level0 1) = Inr st'"
       "joins st' = joins (level0 1) @
          [\<lparr>table = getAliasedTable ?pivot,
            j_keyFrom = getColumnName rootBook (keyFrom authorsRel) (preserveColumnCase exampleBuilder),
            j_keyTo = getColumnName ?pivot (keyTo authorsRel) (preserveColumnCase exampleBuilder)\<rparr>,
           \<lparr>table = getAliasedTable ?target,
            j_keyFrom = getColumnName ?pivot (keyThrough authorsRel) (preserveColumnCase exampleBuilder),
            j_keyTo = getColumnName ?target targetKey (preserveColumnCase exampleBuilder)\<rparr>]"
       "\<forall>p. getPropertyQueriedThrough ?target authorsRel = Some p \<and> p \<noteq> [] \<longrightarrow> targetKey = p"
    by blast
  from r(3) look have tk: "targetKey = ''id''" by simp
  have "joins st' =
        [\<lparr>table = ''public.authorbook as Book_authors_AuthorBook_2'',
          j_keyFrom = ''Book_0.id'',
          j_keyTo = ''Book_authors_AuthorBook_2.bookId''\<rparr>,
         \<lparr>table = ''public.author as Book_authors_1'',
          j_keyFrom = ''Book_authors_AuthorBook_2.authorId'',
          j_keyTo = ''Book_authors_1.id''\<rparr>]"
    unfolding r(2) tk by (simp add: example_defs wrapper_defs authorsRel_def level0_def)
  with r(1) rel thr unseen show ?thesis by blast
qed

text \<open>
  Aliases are distinct because the counter value ends every alias: the decimal rendering
  is injective and holds no underscore, so the text after the last underscore determines
  the counter value.
\<close>

definition digitValue :: "char \<Rightarrow> nat" where
  "digitValue c = length (takeWhile (\<lambda>x. x \<noteq> c) digits)"

lemma digitValue_digit: "a < 10 \<Longrightarrow> digitValue (digit a) = a"
proof -
  assume "a < 10"
  then have "a \<in> {0, 1, 2, 3, 4, 5, 6, 7, 8, 9}" by auto
  then show ?thesis by (auto simp: digit_def digitValue_def digits_def)
qed

lemma digit_inj: "a < 10 \<Longrightarrow> b < 10 \<Longrightarrow> digit a = digit b \<Longrightarrow> a = b"
  by (metis digitValue_digit)

lemma digit_not_underscore: "digit d \<noteq> CHR ''_''"
proof -
  have "min d 9 < length digits" by (simp add: digits_def)
  then have "digit d \<in> set digits" unfolding digit_def by (rule nth_mem)
  then show ?thesis by (auto simp: digits_def)
qed

lemma showNat_nonempty: "showNat n \<noteq> []"
  by (subst showNat.simps) simp

lemma showNat_no_underscore: "CHR ''_'' \<notin> set (showNat n)"
proof (induction n rule: showNat.induct)
  case (1 n)
  show ?case
  proof (cases "n < 10")
    case True
    then show ?thesis using digit_not_underscore[of n] by (subst showNat.simps) auto
  next
    case False
    then show ?thesis using 1 digit_not_underscore[of "n mod 10"]
      by (subst showNat.simps) auto
  qed
qed

lemma showNat_inj: "showNat m = showNat n \<Longrightarrow> m = n"
proof (induction m arbitrary: n rule: showNat.induct)
  case (1 m)
  show ?case
  proof (cases "m < 10")
    case True
    then have sm: "showNat m = [digit m]" by (subst showNat.simps) simp
    show ?thesis
    proof (cases "n < 10")
      case True
      then have "showNat n = [digit n]" by (subst showNat.simps) simp
      with sm 1(2) \<open>m < 10\<close> True show ?thesis by (auto dest: digit_inj)
    next
      case False
      then have "showNat n = showNat (n div 10) @ [digit (n mod 10)]" by (subst showNat.simps) simp
      with sm 1(2) showNat_nonempty[of "n div 10"] show ?thesis by (cases "showNat (n div 10)") auto
    qed
  next
    case False
    then have sm: "showNat m = showNat (m div 10) @ [digit (m mod 10)]" by (subst showNat.simps) simp
    show ?thesis
    proof (cases "n < 10")
      case True
      then have "showNat n = [digit n]" by (subst showNat.simps) simp
      with sm 1(2) showNat_nonempty[of "m div 10"] show ?thesis by (cases "showNat (m div 10)") auto
    next
      case nf: False
      then have sn: "showNat n = showNat (n div 10) @ [digit (n mod 10)]" by (subst showNat.simps) simp
      from sm sn 1(2) have e: "showNat (m div 10) = showNat (n div 10)" "digit (m mod 10) = digit (n mod 10)"
        by auto
      from 1(1)[OF False e(1)] have "m div 10 = n div 10" .
      moreover from e(2) have "m mod 10 = n mod 10" by (auto dest!: digit_inj[rotated 2])
      ultimately show ?thesis by (metis div_mult_mod_eq)
    qed
  qed
qed

lemma index_suffix:
  assumes "pre @ ''_'' @ showNat n = pre' @ ''_'' @ showNat n'"
  shows "n = n'"
proof -
  have "\<And>q k. rev (takeWhile (\<lambda>c. c \<noteq> CHR ''_'') (rev (q @ ''_'' @ showNat k))) = showNat k"
  proof -
    fix q k
    have "takeWhile (\<lambda>c. c \<noteq> CHR ''_'') (rev (showNat k)) = rev (showNat k)"
      using showNat_no_underscore[of k] by (auto simp: takeWhile_eq_all_conv)
    moreover have "rev (q @ ''_'' @ showNat k) = rev (showNat k) @ CHR ''_'' # rev q" by simp
    moreover have "takeWhile (\<lambda>c. c \<noteq> CHR ''_'') (rev (showNat k) @ CHR ''_'' # rev q)
                   = takeWhile (\<lambda>c. c \<noteq> CHR ''_'') (rev (showNat k))"
      by (rule takeWhile_tail) simp
    ultimately show "rev (takeWhile (\<lambda>c. c \<noteq> CHR ''_'') (rev (q @ ''_'' @ showNat k))) = showNat k"
      by (simp only: rev_rev_ident)
  qed
  then have "showNat n = showNat n'" using assms by metis
  then show ?thesis by (rule showNat_inj)
qed


text \<open>
  \<open>issued p p' s\<close>: the text \<open>s\<close> ends with the value of a counter that was
  drawn between the provider states \<open>p\<close> and \<open>p'\<close>. \<open>freshJoins p p' js\<close>: the
  joins \<open>js\<close> have pairwise different tables, all issued between \<open>p\<close> and \<open>p'\<close>.
\<close>

definition issued :: "nat \<Rightarrow> nat \<Rightarrow> string \<Rightarrow> bool" where
  "issued p p' s \<longleftrightarrow> (\<exists>pre n. s = pre @ ''_'' @ showNat n \<and> p \<le> n \<and> n < p')"

definition freshJoins :: "nat \<Rightarrow> nat \<Rightarrow> Join list \<Rightarrow> bool" where
  "freshJoins p p' js \<longleftrightarrow>
     p \<le> p' \<and> distinct (map table js) \<and> (\<forall>j \<in> set js. issued p p' (table j))"

lemma issued_disjoint:
  assumes "issued a b s" "issued c d s" "b \<le> c"
  shows False
proof -
  from assms(1) obtain pre n where 1: "s = pre @ ''_'' @ showNat n" "n < b"
    unfolding issued_def by blast
  from assms(2) obtain pre' n' where 2: "s = pre' @ ''_'' @ showNat n'" "c \<le> n'"
    unfolding issued_def by blast
  from 1(1) 2(1) have "pre @ ''_'' @ showNat n = pre' @ ''_'' @ showNat n'" by simp
  then have "n = n'" by (rule index_suffix)
  with 1(2) 2(2) assms(3) show False by simp
qed

lemma issued_mono:
  assumes "issued a b s" "a' \<le> a" "b \<le> b'"
  shows "issued a' b' s"
proof -
  from assms(1) obtain pre n where "s = pre @ ''_'' @ showNat n" "a \<le> n" "n < b"
    unfolding issued_def by blast
  with assms(2,3) have "s = pre @ ''_'' @ showNat n \<and> a' \<le> n \<and> n < b'" by simp
  then show ?thesis unfolding issued_def by blast
qed

lemma freshJoins_refl: "freshJoins p p []"
  by (simp add: freshJoins_def)

lemma freshJoins_append:
  assumes "freshJoins p p1 xs" "freshJoins p1 p2 ys"
  shows "freshJoins p p2 (xs @ ys)"
proof -
  have le: "p \<le> p1" "p1 \<le> p2" using assms by (simp_all add: freshJoins_def)
  have ix: "\<And>x. x \<in> set xs \<Longrightarrow> issued p p1 (table x)"
    and iy: "\<And>y. y \<in> set ys \<Longrightarrow> issued p1 p2 (table y)"
    using assms by (simp_all add: freshJoins_def)
  have "table x \<noteq> table y" if "x \<in> set xs" "y \<in> set ys" for x y
  proof
    assume e: "table x = table y"
    from ix[OF that(1)] iy[OF that(2)] show False
      unfolding e by (rule issued_disjoint) simp
  qed
  then have disj: "set (map table xs) \<inter> set (map table ys) = {}" by auto
  have d: "distinct (map table xs)" "distinct (map table ys)"
    using assms by (simp_all add: freshJoins_def)
  have "\<And>j. j \<in> set (xs @ ys) \<Longrightarrow> issued p p2 (table j)"
    using ix iy le by (auto intro: issued_mono)
  then show ?thesis
    unfolding freshJoins_def using le d disj by simp
qed

lemma createAlias_issued:
  "createAlias self p m r f = (a, p') \<Longrightarrow> p' = Suc p \<and> (\<exists>pre. a = pre @ ''_'' @ showNat p)"
  by (auto simp: createAlias_def providerCreateAlias_def Let_def)

lemma table_issued:
  "aliasName w = pre @ ''_'' @ showNat n \<Longrightarrow> issued n (Suc n) (getAliasedTable w)"
  unfolding issued_def getAliasedTable_def
  by (rule exI[of _ "tableName (model w) @ '' as '' @ pre"]) auto

lemma joinCallback_fresh:
  assumes "joinCallback self m kv st = Inr st'"
  shows "\<exists>new. joins st' = joins st @ new \<and> freshJoins (provider st) (provider st') new"
proof (cases "isRelation m (fst kv) \<and> relations' st (fst kv) = None")
  case False
  then have "st' = st" using assms by (auto simp: joinCallback_def Let_def)
  then show ?thesis by (auto simp: freshJoins_refl)
next
  case True
  then obtain rel where rel: "getRelation m (fst kv) = Some rel" by (auto simp: isRelation_def)
  obtain a1 p1 where c1: "createAlias self (provider st) (getName m) (Some rel) False = (a1, p1)"
    by (cases "createAlias self (provider st) (getName m) (Some rel) False") auto
  from createAlias_issued[OF c1] obtain pre1 where
    p1: "p1 = Suc (provider st)" and a1: "a1 = pre1 @ ''_'' @ showNat (provider st)" by auto
  let ?target = "fromModel (models self (modelTo rel)) a1"
  have t1: "issued (provider st) (Suc (provider st)) (getAliasedTable ?target)"
    by (rule table_issued[of _ pre1]) (simp add: fromModel_def a1)
  show ?thesis
  proof (cases "modelThrough rel")
    case None
    then have "joins st' = joins st @ [joinReference (getColumnName m (keyFrom rel) (preserveColumnCase self))
                 ?target rel (getAliasedTable ?target) (preserveColumnCase self)]"
      and "provider st' = p1"
      using assms True rel c1 by (auto simp: joinCallback_def trackAliases_def Let_def)
    then show ?thesis using t1 p1
      by (auto simp: freshJoins_def joinReference_def)
  next
    case (Some t)
    obtain a2 p2 where c2: "createAlias self p1 (getName m) (Some rel) True = (a2, p2)"
      by (cases "createAlias self p1 (getName m) (Some rel) True") auto
    from createAlias_issued[OF c2] obtain pre2 where
      p2: "p2 = Suc p1" and a2: "a2 = pre2 @ ''_'' @ showNat p1" by auto
    let ?pivot = "fromModel (models self t) a2"
    have t2: "issued p1 (Suc p1) (getAliasedTable ?pivot)"
      by (rule table_issued[of _ pre2]) (simp add: fromModel_def a2)
    have j: "joins st' = joins st @ joinMapping self (getColumnName m (keyFrom rel) (preserveColumnCase self))
                 ?target ?pivot rel (getAliasedTable ?target) (preserveColumnCase self)"
      and p: "provider st' = p2"
      using assms True rel c1 c2 Some by (auto simp: joinCallback_def trackAliases_def Let_def)
    have ne: "getAliasedTable ?pivot \<noteq> getAliasedTable ?target"
      using issued_disjoint[OF t1 _ order_refl, of "Suc p1"] t2 p1 by auto
    show ?thesis
      apply (rule exI, rule conjI, rule j)
      using t1 t2 p1 p2 p ne
      by (auto simp: freshJoins_def joinMapping_def Let_def intro: issued_mono)
  qed
qed

lemma forEachKey_fresh:
  "forEachKey (joinCallback self m) kvs st = Inr st' \<Longrightarrow>
     \<exists>new. joins st' = joins st @ new \<and> freshJoins (provider st) (provider st') new"
proof (induction kvs arbitrary: st)
  case Nil
  then show ?case by (auto simp: freshJoins_refl)
next
  case (Cons kv kvs)
  then obtain st1 where s1: "joinCallback self m kv st = Inr st1"
    and s2: "forEachKey (joinCallback self m) kvs st1 = Inr st'"
    by (auto split: sum.splits)
  from joinCallback_fresh[OF s1] Cons.IH[OF s2] show ?case
    by (auto intro: freshJoins_append)
qed

lemma forEachQuery_fresh:
  "forEachQuery (joinCallback self m) fs st = Inr st' \<Longrightarrow>
     \<exists>new. joins st' = joins st @ new \<and> freshJoins (provider st) (provider st') new"
proof (induction fs arbitrary: st)
  case Nil
  then show ?case by (auto simp: freshJoins_refl)
next
  case (Cons f fs)
  then obtain kvs st1 where s1: "forEachKey (joinCallback self m) kvs st = Inr st1"
    and s2: "forEachQuery (joinCallback self m) fs st1 = Inr st'"
    by (auto split: sum.splits)
  from forEachKey_fresh[OF s1] Cons.IH[OF s2] show ?case
    by (auto intro: freshJoins_append)
qed

lemma getAllJoins_fresh:
  "getAllJoins self m q order p = Inr (js, p') \<Longrightarrow> freshJoins p p' js"
  "lowerJoins self cs p = Inr (js, p') \<Longrightarrow> freshJoins p p' js"
proof (induction self m q order p and self cs p arbitrary: js p' and js p' rule: getAllJoins_lowerJoins.induct)
  case (1 self rootModel query order aliasProvider)
  from 1(2) obtain filters st lower where
    f: "filtersOf query order = Inr filters"
    and l: "forEachQuery (joinCallback self rootModel) filters
              \<lparr>provider = aliasProvider, relations' = emptyObject, children = [], joins = []\<rparr> = Inr st"
    and c: "lowerJoins self (children st) (provider st) = Inr (lower, p')"
    and js: "js = joins st @ lower"
    by (subst (asm) getAllJoins.simps) (auto split: sum.splits)
  from forEachQuery_fresh[OF l] have "freshJoins aliasProvider (provider st) (joins st)" by auto
  moreover from 1(1)[OF f l c] have "freshJoins (provider st) p' lower" .
  ultimately show ?case unfolding js by (rule freshJoins_append)
next
  case (2 self aliasProvider)
  then show ?case by (auto simp: freshJoins_refl)
next
  case (3 self child rest aliasProvider)
  from 3(3) obtain co js1 p1 js2 where
    co: "childOrder (snd child) = Inr co"
    and g: "getAllJoins self (fst child) (snd child) co aliasProvider = Inr (js1, p1)"
    and r: "lowerJoins self rest p1 = Inr (js2, p')"
    and js: "js = js1 @ js2"
    by (auto split: sum.splits)
  from 3(1)[OF co g] 3(2)[OF co g refl r] show ?case unfolding js
    by (auto intro: freshJoins_append)
qed

text \<open>
  The keys that one level of \<open>getAllJoins\<close> walks: those of all the filters
  \<open>and.concat(or).concat(order)\<close>, in order.
\<close>

definition entryKeys :: "json \<Rightarrow> string list" where
  "entryKeys f = (case objectEntries f of Inl e \<Rightarrow> [] | Inr kvs \<Rightarrow> map fst kvs)"

definition levelKeys :: "json \<Rightarrow> json list \<Rightarrow> string list" where
  "levelKeys q order =
     (case filtersOf q order of Inl e \<Rightarrow> [] | Inr fs \<Rightarrow> concat (map entryKeys fs))"

lemma joinCallback_seen_noop:
  "relations' st (fst kv) \<noteq> None \<Longrightarrow> joinCallback self m kv st = Inr st"
  by (auto simp: joinCallback_def Let_def)

lemma trackAliases_seen:
  "seen name = Some a \<Longrightarrow> trackAliases self m name p seen pc = Inr (a, p, seen)"
  by (simp add: trackAliases_def)

lemma joinCallback_relations:
  assumes "joinCallback self m kv st = Inr st'"
  shows "(relations' st r \<noteq> None \<longrightarrow> relations' st' r \<noteq> None)
       \<and> (isRelation m (fst kv) \<longrightarrow> relations' st' (fst kv) \<noteq> None)
       \<and> (r \<noteq> fst kv \<longrightarrow> relations' st' r = relations' st r)"
  using assms
  by (auto simp: joinCallback_def trackAliases_def Let_def isRelation_def
      split: if_splits option.splits prod.splits Seen.splits)

lemma forEachKey_seen:
  "forEachKey (joinCallback self m) kvs st = Inr st' \<Longrightarrow>
   relations' st r \<noteq> None \<or> (r \<in> fst ` set kvs \<and> isRelation m r) \<Longrightarrow>
   relations' st' r \<noteq> None"
proof (induction kvs arbitrary: st)
  case Nil
  then show ?case by simp
next
  case (Cons kv kvs)
  then obtain st1 where s1: "joinCallback self m kv st = Inr st1"
    and s2: "forEachKey (joinCallback self m) kvs st1 = Inr st'"
    by (auto split: sum.splits)
  from Cons.prems(2) joinCallback_relations[OF s1, of r]
  have "relations' st1 r \<noteq> None \<or> (r \<in> fst ` set kvs \<and> isRelation m r)" by auto
  from Cons.IH[OF s2 this] show ?case .
qed

lemma forEachQuery_seen:
  "forEachQuery (joinCallback self m) fs st = Inr st' \<Longrightarrow>
   relations' st r \<noteq> None \<or> (r \<in> set (concat (map entryKeys fs)) \<and> isRelation m r) \<Longrightarrow>
   relations' st' r \<noteq> None"
proof (induction fs arbitrary: st)
  case Nil
  then show ?case by simp
next
  case (Cons f fs)
  then obtain kvs st1 where e: "objectEntries f = Inr kvs"
    and s1: "forEachKey (joinCallback self m) kvs st = Inr st1"
    and s2: "forEachQuery (joinCallback self m) fs st1 = Inr st'"
    by (auto split: sum.splits)
  have k: "set (entryKeys f) = fst ` set kvs" using e by (simp add: entryKeys_def)
  from Cons.prems(2) forEachKey_seen[OF s1, of r]
  have "relations' st1 r \<noteq> None \<or> (r \<in> set (concat (map entryKeys fs)) \<and> isRelation m r)"
    unfolding list.map concat.simps set_append k by blast
  from Cons.IH[OF s2 this] show ?case .
qed

lemma forEachQuery_append:
  "forEachQuery cb (xs @ ys) st =
     (case forEachQuery cb xs st of Inl e \<Rightarrow> Inl e | Inr st1 \<Rightarrow> forEachQuery cb ys st1)"
  by (induction xs arbitrary: st) (auto split: sum.splits)

lemma filtersOf_append:
  "filtersOf q (order @ extra) =
     (case filtersOf q order of Inl e \<Rightarrow> Inl e | Inr fs \<Rightarrow> Inr (fs @ extra))"
  by (auto simp: filtersOf_def split: sum.splits json.splits)

lemma getAllJoins_order_duplicate:
  assumes "r \<in> set (levelKeys q order)" "isRelation m r"
  shows "getAllJoins self m q (order @ [JObj [(r, x)]]) p = getAllJoins self m q order p"
proof -
  from assms(1) obtain fs where fs: "filtersOf q order = Inr fs"
    and r: "r \<in> set (concat (map entryKeys fs))"
    by (cases "filtersOf q order") (auto simp: levelKeys_def)
  let ?st0 = "\<lparr>provider = p, relations' = emptyObject, children = [], joins = []\<rparr>"
  have "forEachQuery (joinCallback self m) (fs @ [JObj [(r, x)]]) ?st0
        = forEachQuery (joinCallback self m) fs ?st0"
  proof (cases "forEachQuery (joinCallback self m) fs ?st0")
    case (Inl e)
    then show ?thesis by (simp add: forEachQuery_append)
  next
    case (Inr st)
    from forEachQuery_seen[OF Inr, of r] r assms(2) have "relations' st r \<noteq> None" by simp
    then have "joinCallback self m (r, x) st = Inr st" by (simp add: joinCallback_seen_noop)
    then show ?thesis using Inr by (simp add: forEachQuery_append)
  qed
  then show ?thesis
    by (simp add: getAllJoins.simps[of self m q] filtersOf_append fs)
qed


lemma joinCallback_joined:
  assumes "joinCallback self m kv st = Inr st'" "getRelation m (fst kv) = Some rel"
    "relations' st (fst kv) = None"
  shows "\<exists>j \<in> set (joins st'). j_keyFrom j = getColumnName m (keyFrom rel) (preserveColumnCase self)"
  using assms
  by (auto simp: joinCallback_def trackAliases_def Let_def isRelation_def joinReference_def
      joinMapping_def split: if_splits option.splits prod.splits Seen.splits)

lemma joinCallback_joins_mono:
  "joinCallback self m kv st = Inr st' \<Longrightarrow> set (joins st) \<subseteq> set (joins st')"
  using joinCallback_fresh by fastforce

lemma forEachKey_joined:
  "forEachKey (joinCallback self m) kvs st = Inr st' \<Longrightarrow> getRelation m r = Some rel \<Longrightarrow>
   (\<exists>j \<in> set (joins st). j_keyFrom j = getColumnName m (keyFrom rel) (preserveColumnCase self))
     \<or> (relations' st r = None \<and> r \<in> fst ` set kvs) \<Longrightarrow>
   \<exists>j \<in> set (joins st'). j_keyFrom j = getColumnName m (keyFrom rel) (preserveColumnCase self)"
proof (induction kvs arbitrary: st)
  case Nil
  then show ?case by simp
next
  case (Cons kv kvs)
  let ?J = "\<lambda>s. \<exists>j \<in> set (joins s). j_keyFrom j = getColumnName m (keyFrom rel) (preserveColumnCase self)"
  from Cons.prems(1) obtain st1 where s1: "joinCallback self m kv st = Inr st1"
    and s2: "forEachKey (joinCallback self m) kvs st1 = Inr st'"
    by (auto split: sum.splits)
  have "?J st1 \<or> (relations' st1 r = None \<and> r \<in> fst ` set kvs)"
  proof (cases "?J st")
    case True
    then show ?thesis using joinCallback_joins_mono[OF s1] by blast
  next
    case False
    with Cons.prems(3) have n: "relations' st r = None" and k: "r \<in> fst ` set (kv # kvs)" by auto
    show ?thesis
    proof (cases "fst kv = r")
      case True
      then show ?thesis using joinCallback_joined[OF s1 _ ] Cons.prems(2) n by auto
    next
      case False
      then have "relations' st1 r = relations' st r" using joinCallback_relations[OF s1, of r] by auto
      then show ?thesis using n k False by auto
    qed
  qed
  from Cons.IH[OF s2 Cons.prems(2) this] show ?case .
qed

lemma forEachKey_joins_mono:
  "forEachKey (joinCallback self m) kvs st = Inr st' \<Longrightarrow> set (joins st) \<subseteq> set (joins st')"
  using forEachKey_fresh by fastforce

lemma forEachKey_relations:
  "forEachKey (joinCallback self m) kvs st = Inr st' \<Longrightarrow> r \<notin> fst ` set kvs \<Longrightarrow>
   relations' st' r = relations' st r"
proof (induction kvs arbitrary: st)
  case Nil
  then show ?case by simp
next
  case (Cons kv kvs)
  from Cons.prems(1) obtain st1 where s1: "joinCallback self m kv st = Inr st1"
    and s2: "forEachKey (joinCallback self m) kvs st1 = Inr st'"
    by (auto split: sum.splits)
  from Cons.IH[OF s2] Cons.prems(2) joinCallback_relations[OF s1, of r] show ?case by auto
qed

lemma forEachQuery_joined:
  "forEachQuery (joinCallback self m) fs st = Inr st' \<Longrightarrow> getRelation m r = Some rel \<Longrightarrow>
   (\<exists>j \<in> set (joins st). j_keyFrom j = getColumnName m (keyFrom rel) (preserveColumnCase self))
     \<or> (relations' st r = None \<and> r \<in> set (concat (map entryKeys fs))) \<Longrightarrow>
   \<exists>j \<in> set (joins st'). j_keyFrom j = getColumnName m (keyFrom rel) (preserveColumnCase self)"
proof (induction fs arbitrary: st)
  case Nil
  then show ?case by simp
next
  case (Cons f fs)
  let ?J = "\<lambda>s. \<exists>j \<in> set (joins s). j_keyFrom j = getColumnName m (keyFrom rel) (preserveColumnCase self)"
  from Cons.prems(1) obtain kvs st1 where e: "objectEntries f = Inr kvs"
    and s1: "forEachKey (joinCallback self m) kvs st = Inr st1"
    and s2: "forEachQuery (joinCallback self m) fs st1 = Inr st'"
    by (auto split: sum.splits)
  have k: "set (entryKeys f) = fst ` set kvs" using e by (simp add: entryKeys_def)
  have "?J st1 \<or> (relations' st1 r = None \<and> r \<in> set (concat (map entryKeys fs)))"
  proof (cases "?J st \<or> (relations' st r = None \<and> r \<in> fst ` set kvs)")
    case True
    from forEachKey_joined[OF s1 Cons.prems(2) True] show ?thesis by blast
  next
    case False
    with Cons.prems(3) have n: "relations' st r = None" "r \<notin> fst ` set kvs"
      and r: "r \<in> set (concat (map entryKeys fs))"
      unfolding list.map concat.simps set_append k by blast+
    from forEachKey_relations[OF s1 n(2)] n(1) r show ?thesis by simp
  qed
  from Cons.IH[OF s2 Cons.prems(2) this] show ?case .
qed

lemma getAllJoins_joined:
  assumes "getAllJoins self m q order p = Inr (js, p')" "r \<in> set (levelKeys q order)"
    "getRelation m r = Some rel" "emptyObject r = None"
  shows "\<exists>j \<in> set js. j_keyFrom j = getColumnName m (keyFrom rel) (preserveColumnCase self)"
proof -
  from assms(1) obtain filters st lower where
    f: "filtersOf q order = Inr filters"
    and l: "forEachQuery (joinCallback self m) filters
              \<lparr>provider = p, relations' = emptyObject, children = [], joins = []\<rparr> = Inr st"
    and js: "js = joins st @ lower"
    by (subst (asm) getAllJoins.simps) (auto split: sum.splits)
  from assms(2) f have "r \<in> set (concat (map entryKeys filters))" by (simp add: levelKeys_def)
  with forEachQuery_joined[OF l assms(3)] assms(4) show ?thesis unfolding js by auto
qed

lemma lowerJoins_siblings:
  assumes l: "lowerJoins self [(m1, q1), (m2, q2)] p = Inr (js, p')"
    and o1: "childOrder q1 = Inr o1" and o2: "childOrder q2 = Inr o2"
    and k1: "r \<in> set (levelKeys q1 o1)" and k2: "r \<in> set (levelKeys q2 o2)"
    and r1: "getRelation m1 r = Some rel1" and r2: "getRelation m2 r = Some rel2"
    and own: "emptyObject r = None"
  shows "\<exists>j1 j2. j1 \<in> set js \<and> j2 \<in> set js \<and> table j1 \<noteq> table j2 \<and>
           j_keyFrom j1 = getColumnName m1 (keyFrom rel1) (preserveColumnCase self) \<and>
           j_keyFrom j2 = getColumnName m2 (keyFrom rel2) (preserveColumnCase self)"
proof -
  from l o1 o2 obtain js1 pm js2 where
    g1: "getAllJoins self m1 q1 o1 p = Inr (js1, pm)"
    and g2: "getAllJoins self m2 q2 o2 pm = Inr (js2, p')"
    and js: "js = js1 @ js2"
    by (auto split: sum.splits)
  from getAllJoins_joined[OF g1 k1 r1 own] obtain j1 where
    j1: "j1 \<in> set js1" "j_keyFrom j1 = getColumnName m1 (keyFrom rel1) (preserveColumnCase self)" by blast
  from getAllJoins_joined[OF g2 k2 r2 own] obtain j2 where
    j2: "j2 \<in> set js2" "j_keyFrom j2 = getColumnName m2 (keyFrom rel2) (preserveColumnCase self)" by blast
  from getAllJoins_fresh(1)[OF g1] getAllJoins_fresh(1)[OF g2]
  have "freshJoins p p' (js1 @ js2)" by (rule freshJoins_append)
  then have "distinct (map table (js1 @ js2))" by (simp add: freshJoins_def)
  with j1(1) j2(1) have "table j1 \<noteq> table j2" by auto
  with j1 j2 js show ?thesis by auto
qed

text \<open>Example filters and order clauses over the example schema.\<close>

definition publisherFilter :: json where
  "publisherFilter =
     JObj [(''and'', JArr [JObj [(''publisher'',
        JObj [(''and'', JArr [JObj [(''name'', JObj [(''='', JStr ''NAL'')])]])])]])]"

definition publisherOrder :: json where
  "publisherOrder = JObj [(''publisher'', JObj [(''name'', JStr ''asc'')])]"

definition booksFilter :: json where
  "booksFilter =
     JObj [(''and'', JArr [JObj [(''books'',
        JObj [(''and'', JArr [JObj [(''title'', JObj [(''='', JStr ''Halo'')])]])])]])]"

definition siblingFilter :: json where
  "siblingFilter =
     JObj [(''and'', JArr [JObj [(''authors'', booksFilter)], JObj [(''mainAuthor'', booksFilter)]])]"

lemmas join_defs =
  getAllJoins.simps filtersOf_def childOrder_def orDefault_def concatArg_def joinCallback_def
  trackAliases_def joinReference_def joinMapping_def Let_def emptyObject_def objectPrototype_def

lemma showNat_lt10: "n < 10 \<Longrightarrow> showNat n = [digit n]"
  by (subst showNat.simps) simp

lemmas showNat_eval = showNat_lt10 digit_def digits_def

definition siblingJoins :: "Join list" where
  "siblingJoins =
     [\<lparr>table = ''public.authorbook as Book_authors_AuthorBook_2'',
          j_keyFrom = ''Book_0.id'',
          j_keyTo = ''Book_authors_AuthorBook_2.bookId''\<rparr>,
       \<lparr>table = ''public.author as Book_authors_1'',
          j_keyFrom = ''Book_authors_AuthorBook_2.authorId'',
          j_keyTo = ''Book_authors_1.id''\<rparr>,
       \<lparr>table = ''public.author as Book_mainAuthor_3'',
          j_keyFrom = ''Book_0.mainAuthorId'',
          j_keyTo = ''Book_mainAuthor_3.id''\<rparr>,
       \<lparr>table = ''public.authorbook as Author_books_AuthorBook_5'',
          j_keyFrom = ''Book_authors_1.id'',
          j_keyTo = ''Author_books_AuthorBook_5.authorId''\<rparr>,
       \<lparr>table = ''public.book as Author_books_4'',
          j_keyFrom = ''Author_books_AuthorBook_5.bookId'',
          j_keyTo = ''Author_books_4.id''\<rparr>,
       \<lparr>table = ''public.authorbook as Author_books_AuthorBook_7'',
          j_keyFrom = ''Book_mainAuthor_3.id'',
          j_keyTo = ''Author_books_AuthorBook_7.authorId''\<rparr>,
       \<lparr>table = ''public.book as Author_books_6'',
          j_keyFrom = ''Author_books_AuthorBook_7.bookId'',
          j_keyTo = ''Author_books_6.id''\<rparr>]"

definition firstAuthor :: ModelWrapper where
  "firstAuthor = fromModel Author ''Book_authors_1''"

definition secondAuthor :: ModelWrapper where
  "secondAuthor = fromModel Author ''Book_mainAuthor_3''"

definition booksRel :: Relation where
  "booksRel = \<lparr>relName = ''books'', keyFrom = ''id'', keyTo = ''authorId'', modelTo = ''Book'',
                 modelThrough = Some ''AuthorBook'', keyThrough = ''bookId''\<rparr>"

text \<open>
  A key that names a relation which the level has already met changes nothing: the walk
  over the filters of a level gives the same result with and without it.
\<close>

lemma forEachKey_append:
  "forEachKey cb (xs @ ys) st =
     (case forEachKey cb xs st of Inl e \<Rightarrow> Inl e | Inr st1 \<Rightarrow> forEachKey cb ys st1)"
  by (induction xs arbitrary: st) (auto split: sum.splits)

lemma level_second_occurrence:
  assumes seen: "r \<in> set (concat (map entryKeys xs)) \<or> r \<in> fst ` set kvs1"
    and rel: "isRelation m r"
  shows "forEachQuery (joinCallback self m) (xs @ JObj (kvs1 @ (r, x) # kvs2) # ys) st
       = forEachQuery (joinCallback self m) (xs @ JObj (kvs1 @ kvs2) # ys) st"
proof (cases "forEachQuery (joinCallback self m) xs st")
  case (Inl e)
  then show ?thesis by (simp add: forEachQuery_append)
next
  case (Inr st1)
  show ?thesis
  proof (cases "forEachKey (joinCallback self m) kvs1 st1")
    case (Inl e)
    then show ?thesis using Inr by (simp add: forEachQuery_append forEachKey_append)
  next
    case st2: (Inr st2)
    have "relations' st1 r \<noteq> None \<or> (r \<in> fst ` set kvs1 \<and> isRelation m r)"
      using seen rel forEachQuery_seen[OF Inr, of r] by blast
    from forEachKey_seen[OF st2 this] have "relations' st2 r \<noteq> None" .
    then have "joinCallback self m (r, x) st2 = Inr st2" by (simp add: joinCallback_seen_noop)
    then show ?thesis using Inr st2 by (simp add: forEachQuery_append forEachKey_append)
  qed
qed

lemma getAllJoins_second_occurrence:
  assumes "filtersOf q order = Inr (xs @ JObj (kvs1 @ (r, x) # kvs2) # ys)"
    and "filtersOf q' order' = Inr (xs @ JObj (kvs1 @ kvs2) # ys)"
    and "r \<in> set (concat (map entryKeys xs)) \<or> r \<in> fst ` set kvs1"
    and "isRelation m r"
  shows "getAllJoins self m q order p = getAllJoins self m q' order' p"
  using assms(1,2) level_second_occurrence[OF assms(3,4)]
  by (simp add: getAllJoins.simps[of self m q] getAllJoins.simps[of self m q'])

text \<open>Two members of an \<open>or\<close> group that both filter on the authors of a book.\<close>

definition michaelFilter :: json where
  "michaelFilter = JObj [(''and'', JArr [JObj [(''firstName'', JObj [(''='', JStr ''Michael'')])]])]"

definition endeFilter :: json where
  "endeFilter = JObj [(''and'', JArr [JObj [(''lastName'', JObj [(''='', JStr ''Ende'')])]])]"

definition orAuthors :: json where
  "orAuthors = JObj [(''or'', JArr [JObj [(''authors'', michaelFilter)], JObj [(''authors'', endeFilter)]])]"

text \<open>
  The claim C1 as it is written has the same relation, reached in a sibling branch,
  joined again with an alias of its own, and its source names two \<open>or\<close> conditions
  that both traverse the authors. The code does not join them twice: the members of the
  \<open>and\<close> group and of the \<open>or\<close> group of a filter are one level, with one
  object \<open>relations\<close>, and the authors are joined once (the pivot and the target),
  for the first of the two conditions.
\<close>

theorem getAllJoins_or_members_joined_once:
  "getAllJoins exampleBuilder rootBook
     (JObj [(''or'', JArr
        [JObj [(''authors'',
           JObj [(''and'', JArr [JObj [(''firstName'', JObj [(''='', JStr ''Michael'')])]])])],
         JObj [(''authors'',
           JObj [(''and'', JArr [JObj [(''lastName'', JObj [(''='', JStr ''Ende'')])]])])]])])
     [] 1
   = Inr ([\<lparr>table = ''public.authorbook as Book_authors_AuthorBook_2'',
            j_keyFrom = ''Book_0.id'',
            j_keyTo = ''Book_authors_AuthorBook_2.bookId''\<rparr>,
           \<lparr>table = ''public.author as Book_authors_1'',
            j_keyFrom = ''Book_authors_AuthorBook_2.authorId'',
            j_keyTo = ''Book_authors_1.id''\<rparr>], 3)"
  by (simp add: join_defs example_defs wrapper_defs alias_defs showNat_eval)


definition orOnce :: json where
  "orOnce = JObj [(''or'', JArr [JObj [(''authors'', michaelFilter)], JObj []])]"

definition authorsJoins :: "Join list" where
  "authorsJoins =
     [\<lparr>table = ''public.authorbook as Book_authors_AuthorBook_2'',
       j_keyFrom = ''Book_0.id'',
       j_keyTo = ''Book_authors_AuthorBook_2.bookId''\<rparr>,
      \<lparr>table = ''public.author as Book_authors_1'',
       j_keyFrom = ''Book_authors_AuthorBook_2.authorId'',
       j_keyTo = ''Book_authors_1.id''\<rparr>]"

text \<open>
  C1, amended: during join collection a relation is joined once on a level, a level
  being the members of the \<open>and\<close> group, the members of the \<open>or\<close> group and the
  order clauses of one call of \<open>getAllJoins\<close>. A second occurrence of the relation
  on the level, in whichever member, adds no join and allocates no alias: the callback
  leaves the level as it is, \<open>_trackAliases\<close> hands back the aliases it stored, and
  the result of \<open>getAllJoins\<close> is the one of the level without that occurrence (so
  also for a relation that is filtered on and ordered by). The same relation reached on
  two levels, under two different parents, is joined on each of them with an alias of
  its own, and all joins that \<open>getAllJoins\<close> returns have different aliased tables.
  (A relation with a name of \<open>Object.prototype\<close> counts as met before the walk
  starts; the last part leaves it aside.)
\<close>

theorem getAllJoins_level_dedupe:
  "(relations' st (fst kv) \<noteq> None \<longrightarrow> joinCallback self m kv st = Inr st)
   \<and> (seen name = Some a \<longrightarrow> trackAliases self m name p seen pc = Inr (a, p, seen))
   \<and> (filtersOf q order = Inr (xs @ JObj (kvs1 @ (r, x) # kvs2) # ys) \<and>
        filtersOf q' order' = Inr (xs @ JObj (kvs1 @ kvs2) # ys) \<and>
        (r \<in> set (concat (map entryKeys xs)) \<or> r \<in> fst ` set kvs1) \<and> isRelation m r \<longrightarrow>
        getAllJoins self m q order p = getAllJoins self m q' order' p)
   \<and> (r \<in> set (levelKeys q order) \<and> isRelation m r \<longrightarrow>
        getAllJoins self m q (order @ [JObj [(r, x)]]) p = getAllJoins self m q order p)
   \<and> (getAllJoins self m q order p = Inr (js, p') \<longrightarrow> distinct (map table js))
   \<and> (lowerJoins self [(m1, q1), (m2, q2)] p = Inr (ls, p') \<and>
        childOrder q1 = Inr o1 \<and> childOrder q2 = Inr o2 \<and>
        r \<in> set (levelKeys q1 o1) \<and> r \<in> set (levelKeys q2 o2) \<and>
        getRelation m1 r = Some rel1 \<and> getRelation m2 r = Some rel2 \<and>
        r \<notin> set objectPrototype \<longrightarrow>
        (\<exists>j1 j2. j1 \<in> set ls \<and> j2 \<in> set ls \<and> table j1 \<noteq> table j2 \<and>
           j_keyFrom j1 = getColumnName m1 (keyFrom rel1) (preserveColumnCase self) \<and>
           j_keyFrom j2 = getColumnName m2 (keyFrom rel2) (preserveColumnCase self)))"
proof (intro conjI impI)
  assume "relations' st (fst kv) \<noteq> None"
  then show "joinCallback self m kv st = Inr st" by (rule joinCallback_seen_noop)
next
  assume "seen name = Some a"
  then show "trackAliases self m name p seen pc = Inr (a, p, seen)" by (rule trackAliases_seen)
next
  assume h: "filtersOf q order = Inr (xs @ JObj (kvs1 @ (r, x) # kvs2) # ys) \<and>
        filtersOf q' order' = Inr (xs @ JObj (kvs1 @ kvs2) # ys) \<and>
        (r \<in> set (concat (map entryKeys xs)) \<or> r \<in> fst ` set kvs1) \<and> isRelation m r"
  show "getAllJoins self m q order p = getAllJoins self m q' order' p"
    by (rule getAllJoins_second_occurrence[of q order xs kvs1 r x kvs2 ys q' order' m]) (use h in blast)+
next
  assume "r \<in> set (levelKeys q order) \<and> isRelation m r"
  then show "getAllJoins self m q (order @ [JObj [(r, x)]]) p = getAllJoins self m q order p"
    using getAllJoins_order_duplicate by blast
next
  assume "getAllJoins self m q order p = Inr (js, p')"
  from getAllJoins_fresh(1)[OF this] show "distinct (map table js)" by (simp add: freshJoins_def)
next
  assume h: "lowerJoins self [(m1, q1), (m2, q2)] p = Inr (ls, p') \<and>
        childOrder q1 = Inr o1 \<and> childOrder q2 = Inr o2 \<and>
        r \<in> set (levelKeys q1 o1) \<and> r \<in> set (levelKeys q2 o2) \<and>
        getRelation m1 r = Some rel1 \<and> getRelation m2 r = Some rel2 \<and>
        r \<notin> set objectPrototype"
  then have own: "emptyObject r = None" by (simp add: emptyObject_def)
  show "\<exists>j1 j2. j1 \<in> set ls \<and> j2 \<in> set ls \<and> table j1 \<noteq> table j2 \<and>
           j_keyFrom j1 = getColumnName m1 (keyFrom rel1) (preserveColumnCase self) \<and>
           j_keyFrom j2 = getColumnName m2 (keyFrom rel2) (preserveColumnCase self)"
    by (rule lowerJoins_siblings[of self m1 q1 m2 q2 p ls p' o1 o2 r rel1 rel2])
      (use h own in blast)+
qed

lemma publisher_joined_once:
  "getAllJoins exampleBuilder rootBook publisherFilter [] 1 =
     Inr ([\<lparr>table = ''public.publisher as Book_publisher_1'',
            j_keyFrom = ''Book_0.publisherId'',
            j_keyTo = ''Book_publisher_1.id''\<rparr>], 2)"
  by (simp add: join_defs example_defs wrapper_defs alias_defs publisherFilter_def)

lemma authors_joined_once:
  "getAllJoins exampleBuilder rootBook orOnce [] 1 = Inr (authorsJoins, 3)"
  by (simp add: join_defs example_defs wrapper_defs alias_defs showNat_eval orOnce_def
      michaelFilter_def authorsJoins_def)

lemma sibling_joins:
  "getAllJoins exampleBuilder rootBook siblingFilter [] 1 = Inr (siblingJoins, 8)"
  by (simp add: join_defs example_defs wrapper_defs alias_defs showNat_eval siblingFilter_def
      booksFilter_def siblingJoins_def)

lemma sibling_lower:
  "lowerJoins exampleBuilder [(firstAuthor, booksFilter), (secondAuthor, booksFilter)] 4
     = Inr (drop 3 siblingJoins, 8)"
  by (simp add: join_defs example_defs wrapper_defs alias_defs showNat_eval firstAuthor_def
      secondAuthor_def booksFilter_def siblingJoins_def)

theorem getAllJoins_level_dedupe_witness:
  "(\<exists>st1 a. joinCallback exampleBuilder rootBook (''publisher'', JObj []) (level0 1) = Inr st1 \<and>
       relations' st1 ''publisher'' = Some a \<and>
       joinCallback exampleBuilder rootBook (''publisher'', JObj [(''name'', JStr ''asc'')]) st1 = Inr st1 \<and>
       trackAliases exampleBuilder rootBook ''publisher'' (provider st1) (relations' st1) True
         = Inr (a, provider st1, relations' st1))
   \<and> filtersOf orAuthors [] =
        Inr ([JObj [(''authors'', michaelFilter)]] @ JObj ([] @ (''authors'', endeFilter) # []) # [])
   \<and> filtersOf orOnce [] = Inr ([JObj [(''authors'', michaelFilter)]] @ JObj ([] @ []) # [])
   \<and> ''authors'' \<in> set (concat (map entryKeys [JObj [(''authors'', michaelFilter)]]))
   \<and> isRelation rootBook ''authors''
   \<and> getAllJoins exampleBuilder rootBook orAuthors [] 1 = Inr (authorsJoins, 3)
   \<and> ''publisher'' \<in> set (levelKeys publisherFilter []) \<and> isRelation rootBook ''publisher''
   \<and> getAllJoins exampleBuilder rootBook publisherFilter ([] @ [publisherOrder]) 1
        = Inr ([\<lparr>table = ''public.publisher as Book_publisher_1'',
                 j_keyFrom = ''Book_0.publisherId'',
                 j_keyTo = ''Book_publisher_1.id''\<rparr>], 2)
   \<and> getAllJoins exampleBuilder rootBook siblingFilter [] 1 = Inr (siblingJoins, 8)
   \<and> distinct (map table siblingJoins)
   \<and> lowerJoins exampleBuilder [(firstAuthor, booksFilter), (secondAuthor, booksFilter)] 4
        = Inr (drop 3 siblingJoins, 8)
   \<and> childOrder booksFilter = Inr []
   \<and> ''books'' \<in> set (levelKeys booksFilter [])
   \<and> getRelation firstAuthor ''books'' = Some booksRel
   \<and> getRelation secondAuthor ''books'' = Some booksRel
   \<and> ''books'' \<notin> set objectPrototype
   \<and> (\<exists>j1 j2. j1 \<in> set (drop 3 siblingJoins) \<and> j2 \<in> set (drop 3 siblingJoins) \<and>
          table j1 \<noteq> table j2 \<and>
          j_keyFrom j1 = getColumnName firstAuthor (keyFrom booksRel) (preserveColumnCase exampleBuilder) \<and>
          j_keyFrom j2 = getColumnName secondAuthor (keyFrom booksRel) (preserveColumnCase exampleBuilder))"
proof -
  note T1 = getAllJoins_level_dedupe [THEN conjunct1, rule_format]
  note T2 = getAllJoins_level_dedupe [THEN conjunct2, THEN conjunct1, rule_format]
  note T3 = getAllJoins_level_dedupe [THEN conjunct2, THEN conjunct2, THEN conjunct1, rule_format]
  note T4 = getAllJoins_level_dedupe
              [THEN conjunct2, THEN conjunct2, THEN conjunct2, THEN conjunct1, rule_format]
  note T5 = getAllJoins_level_dedupe
              [THEN conjunct2, THEN conjunct2, THEN conjunct2, THEN conjunct2, THEN conjunct1,
               rule_format]
  note T6 = getAllJoins_level_dedupe
              [THEN conjunct2, THEN conjunct2, THEN conjunct2, THEN conjunct2, THEN conjunct2,
               rule_format]
  obtain st1 where s1: "joinCallback exampleBuilder rootBook (''publisher'', JObj []) (level0 1) = Inr st1"
    by (simp add: join_defs example_defs wrapper_defs alias_defs level0_def)
  then obtain a where a: "relations' st1 ''publisher'' = Some a"
    by (auto simp: join_defs example_defs wrapper_defs alias_defs level0_def)
  then have "relations' st1 (fst (''publisher'', JObj [(''name'', JStr ''asc'')])) \<noteq> None" by simp
  then have c1: "joinCallback exampleBuilder rootBook (''publisher'', JObj [(''name'', JStr ''asc'')]) st1 = Inr st1"
    by (rule T1)
  from a
  have c2: "trackAliases exampleBuilder rootBook ''publisher'' (provider st1) (relations' st1) True
         = Inr (a, provider st1, relations' st1)" by (rule T2)
  have f1: "filtersOf orAuthors [] =
        Inr ([JObj [(''authors'', michaelFilter)]] @ JObj ([] @ (''authors'', endeFilter) # []) # [])"
    by (simp add: filtersOf_def orDefault_def concatArg_def orAuthors_def)
  have f2: "filtersOf orOnce [] = Inr ([JObj [(''authors'', michaelFilter)]] @ JObj ([] @ []) # [])"
    by (simp add: filtersOf_def orDefault_def concatArg_def orOnce_def)
  have ka: "''authors'' \<in> set (concat (map entryKeys [JObj [(''authors'', michaelFilter)]]))"
    by (simp add: entryKeys_def)
  have ia: "isRelation rootBook ''authors''" by (simp add: example_defs wrapper_defs)
  have "getAllJoins exampleBuilder rootBook orAuthors [] 1
        = getAllJoins exampleBuilder rootBook orOnce [] 1"
    by (rule T3 [OF conjI [OF f1 conjI [OF f2 conjI [OF disjI1 [OF ka] ia]]]])
  then have c3: "getAllJoins exampleBuilder rootBook orAuthors [] 1 = Inr (authorsJoins, 3)"
    using authors_joined_once by simp
  have k: "''publisher'' \<in> set (levelKeys publisherFilter [])"
    by (simp add: levelKeys_def entryKeys_def filtersOf_def orDefault_def concatArg_def publisherFilter_def)
  have ir: "isRelation rootBook ''publisher''" by (simp add: example_defs wrapper_defs)
  from k ir
  have "getAllJoins exampleBuilder rootBook publisherFilter ([] @ [publisherOrder]) 1
        = getAllJoins exampleBuilder rootBook publisherFilter [] 1"
    unfolding publisherOrder_def by (intro T4 conjI)
  then have c4: "getAllJoins exampleBuilder rootBook publisherFilter ([] @ [publisherOrder]) 1
        = Inr ([\<lparr>table = ''public.publisher as Book_publisher_1'',
                 j_keyFrom = ''Book_0.publisherId'',
                 j_keyTo = ''Book_publisher_1.id''\<rparr>], 2)"
    using publisher_joined_once by simp
  from sibling_joins
  have c5: "distinct (map table siblingJoins)" by (rule T5)
  have co: "childOrder booksFilter = Inr []"
    by (simp add: childOrder_def booksFilter_def)
  have kb: "''books'' \<in> set (levelKeys booksFilter [])"
    by (simp add: levelKeys_def entryKeys_def filtersOf_def orDefault_def concatArg_def booksFilter_def)
  have r1: "getRelation firstAuthor ''books'' = Some booksRel"
    by (simp add: example_defs wrapper_defs firstAuthor_def booksRel_def)
  have r2: "getRelation secondAuthor ''books'' = Some booksRel"
    by (simp add: example_defs wrapper_defs secondAuthor_def booksRel_def)
  have np: "''books'' \<notin> set objectPrototype" by (simp add: objectPrototype_def)
  have c6: "\<exists>j1 j2. j1 \<in> set (drop 3 siblingJoins) \<and> j2 \<in> set (drop 3 siblingJoins) \<and>
          table j1 \<noteq> table j2 \<and>
          j_keyFrom j1 = getColumnName firstAuthor (keyFrom booksRel) (preserveColumnCase exampleBuilder) \<and>
          j_keyFrom j2 = getColumnName secondAuthor (keyFrom booksRel) (preserveColumnCase exampleBuilder)"
    by (rule T6 [OF conjI [OF sibling_lower conjI [OF co conjI [OF co conjI [OF kb conjI
          [OF kb conjI [OF r1 conjI [OF r2 np]]]]]]]])
  from s1 a c1 c2 have c12: "\<exists>st1 a. joinCallback exampleBuilder rootBook (''publisher'', JObj []) (level0 1) = Inr st1 \<and>
       relations' st1 ''publisher'' = Some a \<and>
       joinCallback exampleBuilder rootBook (''publisher'', JObj [(''name'', JStr ''asc'')]) st1 = Inr st1 \<and>
       trackAliases exampleBuilder rootBook ''publisher'' (provider st1) (relations' st1) True
         = Inr (a, provider st1, relations' st1)" by blast
  show ?thesis
    using c12 f1 f2 ka ia c3 k ir c4 sibling_joins c5 sibling_lower co kb r1 r2 np c6 by blast
qed

section \<open>Order application: its properties\<close>

lemmas order_defs = applyOrder_def applyPropertyOrder_def

lemma orderAlias_not_column:
  "aliasName m @ ''_'' @ propertyName \<noteq> getColumnName m p pc"
  by (simp add: getColumnName_def)

lemma handleOrderKeys_property:
  assumes "isProperty m propertyName" "\<not> isRelation m propertyName"
  shows "handleOrderKeys self [(propertyName, direction)] (Some m) st =
     Inr (st\<lparr>o_builder := o_builder st @
        [if direction = JStr ''asc''
         then Min (aliasName m @ ''_'' @ propertyName)
                (getColumnName m propertyName (preserveColumnCase self))
         else Max (aliasName m @ ''_'' @ propertyName)
                (getColumnName m propertyName (preserveColumnCase self)),
         OrderBy (aliasName m @ ''_'' @ propertyName) direction]\<rparr>)"
  using assms by (simp add: applyPropertyOrder_def)

text \<open>
  C6: the claim is that every order directive on a property adds a uniquely aliased
  aggregate column, min for asc and max for desc, and orders by that alias. The code
  adds the aggregate and orders by its alias, but the alias is the model's alias, an
  underscore and the property name, so it is the same for two directives on one
  property: for the order \<open>title asc, title desc\<close> both aggregate columns are named
  \<open>Book_0_title\<close>, and the query orders twice by that one name.
\<close>

theorem applyOrder_duplicate_alias:
  "applyOrder exampleBuilder [] rootBook
     [JObj [(''title'', JStr ''asc'')], JObj [(''title'', JStr ''desc'')]] 1
   = Inr ([Min ''Book_0_title'' ''Book_0.title'', OrderBy ''Book_0_title'' (JStr ''asc''),
           Max ''Book_0_title'' ''Book_0.title'', OrderBy ''Book_0_title'' (JStr ''desc'')], 1)"
  by (simp add: order_defs example_defs wrapper_defs emptyObject_def objectPrototype_def)

section \<open>The filter normalizer\<close>

text \<open>
  The file SearchQueryNormalizer.js is not among the sources; its tests are. The
  normalizer is modelled from section 4.1 of the spec, so that it also yields what the
  tests expect.
\<close>

record SearchQueryNormalizer =
  n_models :: Registry
  rejectUnknownProperties :: bool

text \<open>
  Modelled from the spec: the cast of a \<open>regexp\<close> operator value in
  SearchQueryNormalizer.js (not among the sources). A delimited string \<open>/source/flags\<close>
  becomes a pattern object with the source and the case flag; any other value passes
  through unchanged.
\<close>

definition parseRegExp :: "string \<Rightarrow> json option" where
  "parseRegExp s =
     (case s of
        [] \<Rightarrow> None
      | c # rest \<Rightarrow>
          if c = CHR ''/'' \<and> CHR ''/'' \<in> set rest then
            (let r = rev rest;
                 flags = rev (takeWhile (\<lambda>x. x \<noteq> CHR ''/'') r);
                 source = rev (drop 1 (dropWhile (\<lambda>x. x \<noteq> CHR ''/'') r))
             in Some (JRegExp source (CHR ''i'' \<in> set flags)))
          else None)"

definition normalizeOperatorValue :: "string \<Rightarrow> json \<Rightarrow> json" where
  "normalizeOperatorValue op v =
     (if op = ''regexp'' then
        (case v of
           JStr s \<Rightarrow> (case parseRegExp s of None \<Rightarrow> v | Some r \<Rightarrow> r)
         | _ \<Rightarrow> v)
      else v)"

text \<open>
  Modelled from the spec: the normalization of a property's value in
  SearchQueryNormalizer.js (not among the sources). A bare value becomes
  \<open>{'=': value}\<close>; an object of operators passes through if every operator is in
  the supported set and fails with UnknownOperatorError otherwise.
\<close>

definition normalizeProperty :: "string \<Rightarrow> json \<Rightarrow> error + json" where
  "normalizeProperty property v =
     (case v of
        JObj ops \<Rightarrow>
          if list_all (\<lambda>kv. fst kv \<in> set supportedOperators) ops
          then Inr (JObj (map (\<lambda>kv. (fst kv, normalizeOperatorValue (fst kv) (snd kv))) ops))
          else Inl (UnknownOperatorError property v)
      | _ \<Rightarrow> Inr (JObj [(''='', v)]))"

text \<open>
  Modelled from the spec: how SearchQueryNormalizer.js (not among the sources) groups the
  nodes of one level. The nodes form the level's \<open>and\<close> group; a level that holds
  nothing but an \<open>or\<close> node is that node (the tests expect
  \<open>{authors: {or: [...]}}\<close>), and a member of an \<open>or\<close> array that yields one
  node is that node (the tests expect \<open>{or: [{firstName: {'=': 'Michael'}}, ...]}\<close>).
\<close>

fun soleEntry :: "json \<Rightarrow> (string \<times> json) option" where
  "soleEntry (JObj [kv]) = Some kv"
| "soleEntry _ = None"

definition isOrNode :: "json \<Rightarrow> bool" where
  "isOrNode x = (case soleEntry x of None \<Rightarrow> False | Some kv \<Rightarrow> fst kv = ''or'')"

definition wrapGroup :: "json list \<Rightarrow> json" where
  "wrapGroup g =
     (case g of
        [x] \<Rightarrow> if isOrNode x then x else JObj [(''and'', JArr g)]
      | _ \<Rightarrow> JObj [(''and'', JArr g)])"

definition orMember :: "json list \<Rightarrow> json" where
  "orMember g = (case g of [n] \<Rightarrow> n | _ \<Rightarrow> JObj [(''and'', JArr g)])"

text \<open>
  Modelled from the spec: \<open>SearchQueryNormalizer.normalizeWhereQuery\<close> (not among
  the sources). The keys of a filter are taken in order. \<open>and: [...]\<close> has its
  members normalized and flattened into the level's group; \<open>or: [...]\<close> has its
  members normalized and is kept as one \<open>{or: [...]}\<close> node; a relation recurses
  against the target model; a property has its value normalized; any other name is
  dropped, or fails with UnknownPropertyError if rejection is enabled. A filter that is
  no object has no keys; \<open>and\<close> and \<open>or\<close> have to be arrays.
\<close>

fun normalizeWhere :: "SearchQueryNormalizer \<Rightarrow> Model \<Rightarrow> json \<Rightarrow> error + json"
  and normalizeGroup :: "SearchQueryNormalizer \<Rightarrow> Model \<Rightarrow> json \<Rightarrow> error + json list"
  and normalizeKeys :: "SearchQueryNormalizer \<Rightarrow> Model \<Rightarrow> (string \<times> json) list \<Rightarrow> error + json list"
  and normalizeAnd :: "SearchQueryNormalizer \<Rightarrow> Model \<Rightarrow> json list \<Rightarrow> error + json list"
  and normalizeOr :: "SearchQueryNormalizer \<Rightarrow> Model \<Rightarrow> json list \<Rightarrow> error + json list" where
  "normalizeWhere n e q =
     (case normalizeGroup n e q of Inl x \<Rightarrow> Inl x | Inr g \<Rightarrow> Inr (wrapGroup g))"
| "normalizeGroup n e (JObj kvs) = normalizeKeys n e kvs"
| "normalizeGroup n e JUndefined = Inr []"
| "normalizeGroup n e JNull = Inr []"
| "normalizeGroup n e (JBool b) = Inr []"
| "normalizeGroup n e (JNum i) = Inr []"
| "normalizeGroup n e (JStr s) = Inr []"
| "normalizeGroup n e (JRegExp s i) = Inr []"
| "normalizeGroup n e (JArr xs) = Inr []"
| "normalizeKeys n e [] = Inr []"
| "normalizeKeys n e ((k, v) # rest) =
     (case (if k = ''and'' then
              (case v of JArr ms \<Rightarrow> normalizeAnd n e ms | _ \<Rightarrow> Inl TypeError)
            else if k = ''or'' then
              (case v of
                 JArr ms \<Rightarrow>
                   (case normalizeOr n e ms of
                      Inl x \<Rightarrow> Inl x
                    | Inr ns \<Rightarrow> Inr [JObj [(''or'', JArr ns)]])
               | _ \<Rightarrow> Inl TypeError)
            else
              (case getRelation (fromModel e []) k of
                 Some rel \<Rightarrow>
                   (case normalizeWhere n (n_models n (modelTo rel)) v of
                      Inl x \<Rightarrow> Inl x
                    | Inr sub \<Rightarrow> Inr [JObj [(k, sub)]])
               | None \<Rightarrow>
                   if isProperty (fromModel e []) k then
                     (case normalizeProperty k v of
                        Inl x \<Rightarrow> Inl x
                      | Inr leaf \<Rightarrow> Inr [JObj [(k, leaf)]])
                   else if rejectUnknownProperties n then Inl (UnknownPropertyError k)
                   else Inr [])) of
        Inl x \<Rightarrow> Inl x
      | Inr here \<Rightarrow>
          (case normalizeKeys n e rest of
             Inl x \<Rightarrow> Inl x
           | Inr others \<Rightarrow> Inr (here @ others)))"
| "normalizeAnd n e [] = Inr []"
| "normalizeAnd n e (m # ms) =
     (case normalizeGroup n e m of
        Inl x \<Rightarrow> Inl x
      | Inr g \<Rightarrow>
          (case normalizeAnd n e ms of Inl x \<Rightarrow> Inl x | Inr gs \<Rightarrow> Inr (g @ gs)))"
| "normalizeOr n e [] = Inr []"
| "normalizeOr n e (m # ms) =
     (case normalizeGroup n e m of
        Inl x \<Rightarrow> Inl x
      | Inr g \<Rightarrow>
          (case normalizeOr n e ms of Inl x \<Rightarrow> Inl x | Inr ns \<Rightarrow> Inr (orMember g # ns)))"

definition normalizeWhereQuery :: "SearchQueryNormalizer \<Rightarrow> string \<Rightarrow> json \<Rightarrow> error + json" where
  "normalizeWhereQuery n rootModelName w = normalizeWhere n (n_models n rootModelName) w"

definition exampleNormalizer :: SearchQueryNormalizer where
  "exampleNormalizer = \<lparr>n_models = exampleModels, rejectUnknownProperties = False\<rparr>"

section \<open>The filter normalizer: its properties\<close>

text \<open>A bare leaf: a known property, no relation and no group key, with a scalar value.\<close>

fun isScalar :: "json \<Rightarrow> bool" where
  "isScalar JNull = True"
| "isScalar (JBool b) = True"
| "isScalar (JNum i) = True"
| "isScalar (JStr s) = True"
| "isScalar _ = False"

definition bareLeaf :: "Model \<Rightarrow> string \<times> json \<Rightarrow> bool" where
  "bareLeaf e kv \<longleftrightarrow>
     isProperty (fromModel e []) (fst kv) \<and> \<not> isRelation (fromModel e []) (fst kv) \<and>
     fst kv \<noteq> ''and'' \<and> fst kv \<noteq> ''or'' \<and> isScalar (snd kv)"

definition equalityLeaf :: "string \<times> json \<Rightarrow> json" where
  "equalityLeaf kv = JObj [(fst kv, JObj [(''='', snd kv)])]"

lemma normalizeProperty_scalar: "isScalar v \<Longrightarrow> normalizeProperty k v = Inr (JObj [(''='', v)])"
  by (cases v) (auto simp: normalizeProperty_def)

lemma normalizeKeys_bare:
  "list_all (bareLeaf e) kvs \<Longrightarrow> normalizeKeys n e kvs = Inr (map equalityLeaf kvs)"
proof (induction kvs)
  case Nil
  then show ?case by simp
next
  case (Cons kv kvs)
  obtain k v where kv: "kv = (k, v)" by (cases kv)
  from Cons.prems have b: "bareLeaf e (k, v)" and r: "list_all (bareLeaf e) kvs" by (simp_all add: kv)
  from b have "getRelation (fromModel e []) k = None" by (simp add: bareLeaf_def isRelation_def)
  with b Cons.IH[OF r] show ?case
    by (simp add: kv bareLeaf_def normalizeProperty_scalar equalityLeaf_def)
qed

lemma wrapGroup_leaves:
  "list_all (bareLeaf e) kvs \<Longrightarrow>
   wrapGroup (map equalityLeaf kvs) = JObj [(''and'', JArr (map equalityLeaf kvs))]"
  by (auto simp: wrapGroup_def isOrNode_def equalityLeaf_def bareLeaf_def split: list.splits)

text \<open>
  C3: for every raw where filter that consists solely of bare \<open>{property: scalar}\<close>
  leaves over known properties, normalization returns \<open>{and: [...]}\<close> in which each
  leaf is rewritten to \<open>{property: {'=': scalar}}\<close>, in order, and nothing else.
\<close>

theorem normalize_bare_leaves:
  "list_all (bareLeaf (n_models n rootModelName)) kvs \<Longrightarrow>
   normalizeWhereQuery n rootModelName (JObj kvs) =
     Inr (JObj [(''and'', JArr (map (\<lambda>kv. JObj [(fst kv, JObj [(''='', snd kv)])]) kvs))])"
  using normalizeKeys_bare [of "n_models n rootModelName" kvs n]
    wrapGroup_leaves [of "n_models n rootModelName" kvs]
  by (simp add: normalizeWhereQuery_def equalityLeaf_def [abs_def])

theorem normalize_bare_leaves_witness:
  "list_all (bareLeaf (n_models exampleNormalizer ''Book'')) [(''title'', JStr ''Halo'')] \<and>
   normalizeWhereQuery exampleNormalizer ''Book'' (JObj [(''title'', JStr ''Halo'')]) =
     Inr (JObj [(''and'', JArr [JObj [(''title'', JObj [(''='', JStr ''Halo'')])]])])"
proof -
  have h: "list_all (bareLeaf (n_models exampleNormalizer ''Book'')) [(''title'', JStr ''Halo'')]"
    by (simp add: bareLeaf_def exampleNormalizer_def example_defs wrapper_defs)
  from normalize_bare_leaves [OF h] h show ?thesis by simp
qed

text \<open>
  The shape of the filters that normalization returns (they are exactly its fixed points,
  as shown below). A filter is \<open>{and: [node, ...]}\<close> or \<open>{or: [member, ...]}\<close>; a
  node is a leaf \<open>{property: {operator: value, ...}}\<close> with supported operators (and
  no regexp value left to cast), a relation \<open>{relation: filter}\<close> or an
  \<open>{or: [...]}\<close> node; a member of an \<open>or\<close> array is a node or an
  \<open>{and: [...]}\<close> group. No group is nested deeper than needed: the \<open>and\<close>
  group of a filter is not a lone \<open>or\<close> node (the filter is that node then), and an
  \<open>and\<close> group inside \<open>or\<close> has not exactly one node (the member is that node
  then).
\<close>

definition castDone :: "string \<times> json \<Rightarrow> bool" where
  "castDone kv \<longleftrightarrow>
     (case snd kv of JStr s \<Rightarrow> fst kv \<noteq> ''regexp'' \<or> parseRegExp s = None | _ \<Rightarrow> True)"

definition normalLeaf :: "json \<Rightarrow> bool" where
  "normalLeaf v \<longleftrightarrow>
     (case v of
        JObj ops \<Rightarrow> list_all (\<lambda>kv. fst kv \<in> set supportedOperators \<and> castDone kv) ops
      | _ \<Rightarrow> False)"

definition singleOr :: "json list \<Rightarrow> bool" where
  "singleOr g \<longleftrightarrow> (case g of [x] \<Rightarrow> isOrNode x | _ \<Rightarrow> False)"

lemma soleEntry_weight: "soleEntry q = Some (k, v) \<Longrightarrow> weight v < weight q"
  by (cases q rule: soleEntry.cases) auto

lemma soleEntry_Some: "soleEntry q = Some kv \<longleftrightarrow> q = JObj [kv]"
  by (cases q rule: soleEntry.cases) auto

function normalized :: "SearchQueryNormalizer \<Rightarrow> Model \<Rightarrow> json \<Rightarrow> bool"
  and normalizedNode :: "SearchQueryNormalizer \<Rightarrow> Model \<Rightarrow> json \<Rightarrow> bool"
  and normalizedMember :: "SearchQueryNormalizer \<Rightarrow> Model \<Rightarrow> json \<Rightarrow> bool"
  and normalizedNodes :: "SearchQueryNormalizer \<Rightarrow> Model \<Rightarrow> json list \<Rightarrow> bool"
  and normalizedMembers :: "SearchQueryNormalizer \<Rightarrow> Model \<Rightarrow> json list \<Rightarrow> bool" where
  "normalized n e q =
     (case soleEntry q of
        None \<Rightarrow> False
      | Some (k, v) \<Rightarrow>
          if k = ''and'' then
            (case v of JArr xs \<Rightarrow> normalizedNodes n e xs \<and> \<not> singleOr xs | _ \<Rightarrow> False)
          else if k = ''or'' then
            (case v of JArr ms \<Rightarrow> normalizedMembers n e ms | _ \<Rightarrow> False)
          else False)"
| "normalizedNode n e node =
     (case soleEntry node of
        None \<Rightarrow> False
      | Some (k, v) \<Rightarrow>
          if k = ''and'' then False
          else if k = ''or'' then
            (case v of JArr ms \<Rightarrow> normalizedMembers n e ms | _ \<Rightarrow> False)
          else
            (case getRelation (fromModel e []) k of
               Some rel \<Rightarrow> normalized n (n_models n (modelTo rel)) v
             | None \<Rightarrow> isProperty (fromModel e []) k \<and> normalLeaf v))"
| "normalizedMember n e m =
     (case soleEntry m of
        None \<Rightarrow> False
      | Some (k, v) \<Rightarrow>
          if k = ''and'' then
            (case v of JArr xs \<Rightarrow> normalizedNodes n e xs \<and> length xs \<noteq> 1 | _ \<Rightarrow> False)
          else normalizedNode n e m)"
| "normalizedNodes n e [] = True"
| "normalizedNodes n e (x # xs) = (normalizedNode n e x \<and> normalizedNodes n e xs)"
| "normalizedMembers n e [] = True"
| "normalizedMembers n e (m # ms) = (normalizedMember n e m \<and> normalizedMembers n e ms)"
  by pat_completeness auto
termination
  by (relation "measure (\<lambda>x. case x of
         Inl (Inl (n, e, q)) \<Rightarrow> 2 * weight q
       | Inl (Inr (n, e, q)) \<Rightarrow> 2 * weight q
       | Inr (Inl (n, e, q)) \<Rightarrow> 2 * weight q + 1
       | Inr (Inr (Inl (n, e, xs))) \<Rightarrow> 2 * weightl xs + 2
       | Inr (Inr (Inr (n, e, xs))) \<Rightarrow> 2 * weightl xs + 2)")
    (auto dest!: soleEntry_weight simp: weight_pos)

declare normalized.simps [simp del] normalizedNode.simps [simp del] normalizedMember.simps [simp del]

lemma castDone_value: "castDone kv \<Longrightarrow> normalizeOperatorValue (fst kv) (snd kv) = snd kv"
  by (auto simp: castDone_def normalizeOperatorValue_def split: json.splits option.splits)

lemma normalLeaf_fixed: "normalLeaf v \<Longrightarrow> normalizeProperty k v = Inr v"
proof (cases v)
  case (JObj ops)
  assume "normalLeaf v"
  then have a: "list_all (\<lambda>kv. fst kv \<in> set supportedOperators \<and> castDone kv) ops"
    by (simp add: normalLeaf_def JObj)
  then have "list_all (\<lambda>kv. fst kv \<in> set supportedOperators) ops"
    by (simp add: list_all_iff)
  moreover from a have "map (\<lambda>kv. (fst kv, normalizeOperatorValue (fst kv) (snd kv))) ops = ops"
    by (induction ops) (auto simp: castDone_value)
  ultimately show ?thesis by (simp add: normalizeProperty_def JObj)
qed (auto simp: normalLeaf_def)

lemma wrapGroup_and: "\<not> singleOr xs \<Longrightarrow> wrapGroup xs = JObj [(''and'', JArr xs)]"
  by (auto simp: wrapGroup_def singleOr_def split: list.splits)

lemma wrapGroup_or: "wrapGroup [JObj [(''or'', v)]] = JObj [(''or'', v)]"
  by (simp add: wrapGroup_def isOrNode_def)

lemma orMember_and: "length xs \<noteq> 1 \<Longrightarrow> orMember xs = JObj [(''and'', JArr xs)]"
  by (auto simp: orMember_def split: list.splits)

lemma normal_fixed:
  "normalized n e q \<Longrightarrow> normalizeWhere n e q = Inr q"
  "normalizedNode n e node \<Longrightarrow> normalizeGroup n e node = Inr [node]"
  "normalizedMember n e m \<Longrightarrow> (\<exists>g. normalizeGroup n e m = Inr g \<and> orMember g = m)"
  "normalizedNodes n e xs \<Longrightarrow> normalizeAnd n e xs = Inr xs"
  "normalizedMembers n e ms \<Longrightarrow> normalizeOr n e ms = Inr ms"
proof (induction n e q and n e node and n e m and n e xs and n e ms
    rule: normalized_normalizedNode_normalizedMember_normalizedNodes_normalizedMembers.induct)
  case (1 n e q)
  from 1(3) obtain k v where q: "q = JObj [(k, v)]"
    by (auto simp: normalized.simps soleEntry_Some split: option.splits)
  then have se: "soleEntry q = Some (k, v)" by simp
  from 1(3) q consider (a) xs where "k = ''and''" "v = JArr xs" "normalizedNodes n e xs" "\<not> singleOr xs"
    | (o) ms where "k \<noteq> ''and''" "k = ''or''" "v = JArr ms" "normalizedMembers n e ms"
    by (auto simp: normalized.simps split: if_splits json.splits)
  then show ?case
  proof cases
    case a
    from 1(1)[OF se refl a(1,2,3)] a q show ?thesis by (simp add: wrapGroup_and)
  next
    case o
    from 1(2)[OF se refl o(1,2,3,4)] o q show ?thesis by (simp add: wrapGroup_or)
  qed
next
  case (2 n e node)
  from 2(3) obtain k v where q: "node = JObj [(k, v)]"
    by (auto simp: normalizedNode.simps soleEntry_Some split: option.splits)
  then have se: "soleEntry node = Some (k, v)" by simp
  from 2(3) q consider
      (o) ms where "k \<noteq> ''and''" "k = ''or''" "v = JArr ms" "normalizedMembers n e ms"
    | (r) rel where "k \<noteq> ''and''" "k \<noteq> ''or''" "getRelation (fromModel e []) k = Some rel"
        "normalized n (n_models n (modelTo rel)) v"
    | (p) "k \<noteq> ''and''" "k \<noteq> ''or''" "getRelation (fromModel e []) k = None"
        "isProperty (fromModel e []) k" "normalLeaf v"
    by (auto simp: normalizedNode.simps split: if_splits json.splits option.splits)
  then show ?case
  proof cases
    case o
    from 2(1)[OF se refl o(1,2,3,4)] o q show ?thesis by simp
  next
    case r
    from 2(2)[OF se refl r(1,2,3,4)] r q show ?thesis by simp
  next
    case p
    then show ?thesis using q by (simp add: normalLeaf_fixed)
  qed
next
  case (3 n e m)
  from 3(3) obtain k v where q: "m = JObj [(k, v)]"
    by (auto simp: normalizedMember.simps soleEntry_Some split: option.splits)
  then have se: "soleEntry m = Some (k, v)" by simp
  from 3(3) q consider (a) xs where "k = ''and''" "v = JArr xs" "normalizedNodes n e xs" "length xs \<noteq> 1"
    | (x) "k \<noteq> ''and''" "normalizedNode n e m"
    by (auto simp: normalizedMember.simps split: if_splits json.splits)
  then show ?case
  proof cases
    case a
    from 3(1)[OF se refl a(1,2,3)] a q show ?thesis by (simp add: orMember_and)
  next
    case x
    from 3(2)[OF se refl x(1,2)] show ?thesis by (simp add: orMember_def)
  qed
next
  case (7 n e m ms)
  from 7(3) have a: "normalizedMember n e m" and b: "normalizedMembers n e ms" by simp_all
  from 7(1)[OF a] 7(2)[OF b] show ?case by auto
qed auto


lemma normalizedNodes_append: "normalizedNodes n e (xs @ ys) \<longleftrightarrow> normalizedNodes n e xs \<and> normalizedNodes n e ys"
  by (induction xs) auto

lemma normalizeProperty_normal: "normalizeProperty k v = Inr leaf \<Longrightarrow> normalLeaf leaf"
proof (cases v)
  case (JObj ops)
  assume a: "normalizeProperty k v = Inr leaf"
  then have s: "list_all (\<lambda>kv. fst kv \<in> set supportedOperators) ops"
    and l: "leaf = JObj (map (\<lambda>kv. (fst kv, normalizeOperatorValue (fst kv) (snd kv))) ops)"
    by (auto simp: normalizeProperty_def JObj split: if_splits)
  have "castDone (k', normalizeOperatorValue k' v')" for k' v'
    by (auto simp: castDone_def normalizeOperatorValue_def parseRegExp_def Let_def
        split: json.splits option.splits list.splits if_splits)
  with s show ?thesis
    by (auto simp: l normalLeaf_def list_all_iff)
qed (auto simp: normalizeProperty_def normalLeaf_def castDone_def supportedOperators_def)

lemma orNode_normal:
  "normalizedMembers n e ns \<Longrightarrow> normalizedNode n e (JObj [(''or'', JArr ns)])"
  by (simp add: normalizedNode.simps)

lemma wrapGroup_normal:
  assumes "normalizedNodes n e g"
  shows "normalized n e (wrapGroup g)"
proof (cases "singleOr g")
  case False
  then show ?thesis using assms by (simp add: wrapGroup_and normalized.simps)
next
  case True
  then obtain x k v where g: "g = [x]" and x: "x = JObj [(k, v)]" and k: "k = ''or''"
    by (auto simp: singleOr_def isOrNode_def soleEntry_Some split: list.splits option.splits)
  from assms g x k have "normalizedNode n e (JObj [(''or'', v)])" by simp
  then have "normalized n e (JObj [(''or'', v)])"
    by (auto simp: normalizedNode.simps normalized.simps split: json.splits)
  then show ?thesis using g x k by (simp add: wrapGroup_or)
qed

lemma node_not_and:
  "normalizedNode n e x \<Longrightarrow> \<exists>k v. x = JObj [(k, v)] \<and> k \<noteq> ''and''"
  by (auto simp: normalizedNode.simps soleEntry_Some split: option.splits if_splits)

lemma orMember_normal:
  assumes "normalizedNodes n e g"
  shows "normalizedMember n e (orMember g)"
proof (cases "length g = 1")
  case False
  then show ?thesis using assms by (simp add: orMember_and normalizedMember.simps)
next
  case True
  then obtain x where g: "g = [x]" by (cases g) auto
  with assms have x: "normalizedNode n e x" by simp
  from node_not_and[OF x] obtain k v where "x = JObj [(k, v)]" "k \<noteq> ''and''" by blast
  with x show ?thesis by (simp add: g orMember_def normalizedMember.simps)
qed

lemma normalize_normal:
  "normalizeWhere n e q = Inr r \<Longrightarrow> normalized n e r"
  "normalizeGroup n e q = Inr g \<Longrightarrow> normalizedNodes n e g"
  "normalizeKeys n e kvs = Inr g \<Longrightarrow> normalizedNodes n e g"
  "normalizeAnd n e ms = Inr g \<Longrightarrow> normalizedNodes n e g"
  "normalizeOr n e ms = Inr ns \<Longrightarrow> normalizedMembers n e ns"
proof (induction n e q and n e q and n e kvs and n e ms and n e ms arbitrary: r and g and g and g and ns
    rule: normalizeWhere_normalizeGroup_normalizeKeys_normalizeAnd_normalizeOr.induct)
  case (1 n e q)
  then show ?case by (auto split: sum.splits intro: wrapGroup_normal)
next
  case (11 n e k v rest)
  from 11(5) obtain here others where
    h: "(if k = ''and'' then
              (case v of JArr ms \<Rightarrow> normalizeAnd n e ms | _ \<Rightarrow> Inl TypeError)
            else if k = ''or'' then
              (case v of
                 JArr ms \<Rightarrow>
                   (case normalizeOr n e ms of
                      Inl x \<Rightarrow> Inl x
                    | Inr ns \<Rightarrow> Inr [JObj [(''or'', JArr ns)]])
               | _ \<Rightarrow> Inl TypeError)
            else
              (case getRelation (fromModel e []) k of
                 Some rel \<Rightarrow>
                   (case normalizeWhere n (n_models n (modelTo rel)) v of
                      Inl x \<Rightarrow> Inl x
                    | Inr sub \<Rightarrow> Inr [JObj [(k, sub)]])
               | None \<Rightarrow>
                   if isProperty (fromModel e []) k then
                     (case normalizeProperty k v of
                        Inl x \<Rightarrow> Inl x
                      | Inr leaf \<Rightarrow> Inr [JObj [(k, leaf)]])
                   else if rejectUnknownProperties n then Inl (UnknownPropertyError k)
                   else Inr [])) = Inr here"
    and o: "normalizeKeys n e rest = Inr others" and g: "g = here @ others"
    by (auto split: sum.splits)
  from 11(4)[OF h o] have no: "normalizedNodes n e others" .
  have "normalizedNodes n e here"
  proof (cases "k = ''and''")
    case True
    with h obtain ms where v: "v = JArr ms" and a: "normalizeAnd n e ms = Inr here"
      by (cases v) auto
    from 11(1)[OF True v a] show ?thesis .
  next
    case na: False
    show ?thesis
    proof (cases "k = ''or''")
      case True
      with h na obtain ms ns where v: "v = JArr ms" and a: "normalizeOr n e ms = Inr ns"
        and here: "here = [JObj [(''or'', JArr ns)]]"
        by (cases v) (auto split: sum.splits)
      from 11(2)[OF na True v a] here show ?thesis by (simp add: normalizedNode.simps)
    next
      case no: False
      show ?thesis
      proof (cases "getRelation (fromModel e []) k")
        case (Some rel)
        with h na no obtain sub where s: "normalizeWhere n (n_models n (modelTo rel)) v = Inr sub"
          and here: "here = [JObj [(k, sub)]]"
          by (auto split: sum.splits)
        from 11(3)[OF na no Some s] here na no Some show ?thesis by (simp add: normalizedNode.simps)
      next
        case None
        with h na no show ?thesis
          by (auto simp: normalizedNode.simps normalizeProperty_normal split: if_splits sum.splits)
      qed
    qed
  qed
  with no show ?case by (simp add: g normalizedNodes_append)
next
  case (13 n e m ms)
  then show ?case by (auto split: sum.splits simp: normalizedNodes_append)
next
  case (15 n e m ms)
  then show ?case by (auto split: sum.splits intro: orMember_normal)
qed auto




definition animalFarm :: json where
  "animalFarm =
     JObj [(''title'', JStr ''Animal Farm''),
           (''or'', JArr [JObj [(''publisherId'', JNum 1)], JObj [(''mainAuthorId'', JNum 1)]])]"

definition animalFarmNormalized :: json where
  "animalFarmNormalized =
     JObj [(''and'', JArr
       [JObj [(''title'', JObj [(''='', JStr ''Animal Farm'')])],
        JObj [(''or'', JArr
          [JObj [(''publisherId'', JObj [(''='', JNum 1)])],
           JObj [(''mainAuthorId'', JObj [(''='', JNum 1)])]])]])]"

lemma animalFarm_normalized:
  "normalizeWhereQuery exampleNormalizer ''Book'' animalFarm = Inr animalFarmNormalized"
  by (simp add: normalizeWhereQuery_def exampleNormalizer_def wrapGroup_def isOrNode_def
      orMember_def normalizeProperty_def animalFarm_def animalFarmNormalized_def
      example_defs wrapper_defs)


section \<open>Properties of the alias provider\<close>

text \<open>
  Every alias that a sequence of calls returns ends in the value that the shared counter
  had at the call, which is at least the value it had at the start.
\<close>

lemma runCalls_index:
  "a \<in> set (runCalls c k calls) \<Longrightarrow> \<exists>pre n. a = pre @ ''_'' @ showNat n \<and> c \<le> n"
proof (induction c k calls rule: runCalls.induct)
  case (1 c k)
  then show ?case by simp
next
  case (2 c k h modelN relation through rest)
  show ?case
  proof (cases "h < k")
    case True
    from 2(3) True consider (hd) "a = aliasSegments modelN relation through @ ''_'' @ showNat c"
      | (tl) "a \<in> set (runCalls (Suc c) k rest)"
      by (auto simp: providerCreateAlias_def)
    then show ?thesis
    proof cases
      case hd
      then show ?thesis by blast
    next
      case tl
      from 2(1)[OF True] tl obtain pre n where "a = pre @ ''_'' @ showNat n" "Suc c \<le> n"
        by (auto simp: providerCreateAlias_def)
      then have "a = pre @ ''_'' @ showNat n \<and> c \<le> n" by simp
      then show ?thesis by blast
    qed
  next
    case False
    with 2 show ?thesis by simp
  qed
next
  case (3 c k h rest)
  then show ?case by simp
qed

lemma runCalls_distinct: "distinct (runCalls c k calls)"
proof (induction c k calls rule: runCalls.induct)
  case (1 c k)
  then show ?case by simp
next
  case (2 c k h modelN relation through rest)
  show ?case
  proof (cases "h < k")
    case True
    let ?a = "aliasSegments modelN relation through @ ''_'' @ showNat c"
    have "?a \<notin> set (runCalls (Suc c) k rest)"
    proof
      assume "?a \<in> set (runCalls (Suc c) k rest)"
      from runCalls_index[OF this] obtain pre n where
        e: "?a = pre @ ''_'' @ showNat n" and n: "Suc c \<le> n" by blast
      from e have "c = n" by (rule index_suffix)
      with n show False by simp
    qed
    with 2(1)[OF True] True show ?thesis by (simp add: providerCreateAlias_def)
  next
    case False
    with 2 show ?thesis by simp
  qed
next
  case (3 c k h rest)
  then show ?case by simp
qed

text \<open>The number of providers that exist after a sequence of calls.\<close>

fun providersAfter :: "nat \<Rightarrow> ProviderCall list \<Rightarrow> nat" where
  "providersAfter k [] = k"
| "providersAfter k (CreateAlias h modelN relation through # rest) = providersAfter k rest"
| "providersAfter k (SpawnProvider h # rest) = providersAfter (if h < k then Suc k else k) rest"

lemma runCalls_append:
  "runCalls c k (calls @ later) =
     runCalls c k calls
       @ runCalls (c + length (runCalls c k calls)) (providersAfter k calls) later"
  by (induction c k calls rule: runCalls.induct) (auto simp: providerCreateAlias_def)


end
